theory Spec2Isabelle
  imports Main "HOL-Library.Multiset" "HOL-Library.Char_ord" "HOL-Library.List_Lexorder"
begin

section \<open>Values, fields and attributes\<close>

text \<open>
  The repository holds the correlation handle twice: \<^verbatim>\<open>src/eotel.go\<close> and
  \<^verbatim>\<open>src/unnamed/part_001\<close>. Both are embedded. A definition taken from
  \<^verbatim>\<open>src/unnamed/part_001\<close> keeps the source's name; the one taken from
  \<^verbatim>\<open>src/eotel.go\<close> carries the suffix \<open>_eotel\<close>.

  A Go \<^verbatim>\<open>error\<close> is its message (what \<^verbatim>\<open>err.Error()\<close> returns); the nil error is
  \<open>None\<close>. A pointer or interface value that may be nil is an \<open>option\<close>.
\<close>

type_synonym go_error = string

text \<open>The values a caller passes as \<^verbatim>\<open>any\<close>.\<close>

datatype go_value = VNil | VBool bool | VInt int | VString string | VError go_error

fun digits :: "nat \<Rightarrow> string" where
  "digits n = (if n < 10 then [''0123456789'' ! n]
               else digits (n div 10) @ [''0123456789'' ! (n mod 10)])"

declare digits.simps [simp del]

text \<open>\<^verbatim>\<open>fmt.Sprintf("%v", value)\<close>\<close>

fun sprint_v :: "go_value \<Rightarrow> string" where
  "sprint_v VNil = ''<nil>''"
| "sprint_v (VBool b) = (if b then ''true'' else ''false'')"
| "sprint_v (VInt i) = (if i < 0 then CHR ''-'' # digits (nat (- i)) else digits (nat i))"
| "sprint_v (VString s) = s"
| "sprint_v (VError e) = e"

datatype zap_field = ZapField (field_key: string) (field_value: go_value)

definition zap_Any :: "string \<Rightarrow> go_value \<Rightarrow> zap_field" where
  "zap_Any key v = ZapField key v"

definition zap_String :: "string \<Rightarrow> string \<Rightarrow> zap_field" where
  "zap_String key s = ZapField key (VString s)"

definition zap_Error :: "go_error \<Rightarrow> zap_field" where
  "zap_Error e = ZapField ''error'' (VError e)"

text \<open>
  An attribute value is a string or a float64. The only float64 the handle produces is
  \<^verbatim>\<open>time.Since(l.start).Seconds() * 1000\<close>; the embedding keeps the \<^verbatim>\<open>Duration\<close> (in
  nanoseconds) that number is computed from.
\<close>

datatype attr_value = StringValue string | Float64Value int

datatype key_value = KeyValue (Key: string) (Value: attr_value)

definition attribute_String :: "string \<Rightarrow> string \<Rightarrow> key_value" where
  "attribute_String k s = KeyValue k (StringValue s)"

definition attribute_Float64 :: "string \<Rightarrow> int \<Rightarrow> key_value" where
  "attribute_Float64 k d = KeyValue k (Float64Value d)"

section \<open>Collaborators\<close>

text \<open>
  A span is known to the handle by its span context. Identifiers are numbers; \<open>0\<close> is the
  all-zero identifier of the empty \<^verbatim>\<open>trace.SpanContext{}\<close>.
\<close>

datatype span_context = SpanContext (TraceID: nat) (SpanID: nat)

fun hex_digits :: "nat \<Rightarrow> nat \<Rightarrow> string" where
  "hex_digits 0 n = []"
| "hex_digits (Suc k) n = hex_digits k (n div 16) @ [''0123456789abcdef'' ! (n mod 16)]"

definition TraceID_String :: "span_context \<Rightarrow> string" where
  "TraceID_String sc = hex_digits 32 (TraceID sc)"

definition SpanID_String :: "span_context \<Rightarrow> string" where
  "SpanID_String sc = hex_digits 16 (SpanID sc)"

text \<open>
  A zap logger. \<open>fatal_exits\<close> says whether its \<^verbatim>\<open>Fatal\<close> ends the process after writing
  (zap's default) or returns to the caller.
\<close>

datatype zap_logger = ZapLogger (logger_name: string) (fatal_exits: bool)

definition zap_NewNop :: zap_logger where
  "zap_NewNop = ZapLogger ''nop'' True"

datatype tracer = Tracer string

datatype meter = Meter string

datatype instrument = Int64Counter string | Float64Histogram string

datatype exporter = Exporter nat

record Config =
  ServiceName :: string
  JobName :: string
  OtelCollector :: string
  EnableTracing :: bool
  EnableMetrics :: bool
  EnableSentry :: bool
  EnableLoki :: bool
  SentryDSN :: string
  LokiURL :: string

record LokiEntry =
  Labels :: "(string \<times> string) list"
  Message :: string

section \<open>The world: configuration, clock and the calls made on collaborators\<close>

text \<open>
  Every call the package makes on a collaborator is appended to \<open>events\<close>, in order.
\<close>

datatype event =
    TracerStart tracer "span_context option" string span_context
  | SetAttributes span_context "key_value list"
  | SetStatusError span_context string
  | RecordError span_context go_error
  | SpanEnd span_context
  | ZapLog zap_logger string string "zap_field list"
  | Printf string
  | ExporterSend exporter string string string string
  | ExporterCaptureError exporter go_error "(string \<times> string) list" "(string \<times> go_value) list"
  | CounterAdd instrument int string
  | HistogramRecord instrument int string
  | AbortWithStatus nat
  | AbortWithStatusJSON nat "(string \<times> string) list"
  | HttpPost string LokiEntry int
  | SentryCaptureException go_error "(string \<times> string) list" "(string \<times> go_value) list"
  | SentryFlush

record world =
  globalCfg :: Config
  now :: int
  next_id :: nat
  zap_L :: zap_logger
  logChan :: "LokiEntry list"
  events :: "event list"

definition emit :: "event \<Rightarrow> world \<Rightarrow> world" where
  "emit e w = w\<lparr>events := events w @ [e]\<rparr>"

text \<open>
  A call returns, panics (a nil dereference or a call on a nil interface), or ends the
  process (\<^verbatim>\<open>os.Exit\<close>). Each outcome keeps the world as it was left.
\<close>

datatype 'a outcome = Returned world 'a | Panicked world string | Exited world nat

fun world_of :: "'a outcome \<Rightarrow> world" where
  "world_of (Returned w x) = w"
| "world_of (Panicked w m) = w"
| "world_of (Exited w n) = w"

fun and_then :: "'a outcome \<Rightarrow> (world \<Rightarrow> 'a \<Rightarrow> 'b outcome) \<Rightarrow> 'b outcome" where
  "and_then (Returned w x) f = f w x"
| "and_then (Panicked w m) f = Panicked w m"
| "and_then (Exited w n) f = Exited w n"

definition nil_dereference :: string where
  "nil_dereference = ''runtime error: invalid memory address or nil pointer dereference''"

section \<open>The handle and the context\<close>

text \<open>
  A \<^verbatim>\<open>context.Context\<close> carries the span of the operation, if any, and the value stored
  under \<^verbatim>\<open>loggerCtxKey{}\<close>: nothing, a value that is not a \<^verbatim>\<open>*Eotel\<close>, or a
  \<^verbatim>\<open>*Eotel\<close> (which may be a nil pointer). The handle is the struct \<^verbatim>\<open>Eotel\<close>, field by
  field.
\<close>

datatype go_context = Context (ctx_span: "span_context option") (ctx_logger: ctx_value)
  and ctx_value = NoValue | OtherValue | EotelPtr "eotel option"
  and eotel = Eotel
    (ctx: go_context)
    (logger: "zap_logger option")
    (tracer: "tracer option")
    (meter: "meter option")
    (span: "span_context option")
    (logCounter: "instrument option")
    (durationHist: "instrument option")
    (fields: "zap_field list")
    (attrs: "key_value list")
    (err: "go_error option")
    (name: string)
    (start: int)
    (exporter: "exporter option")

definition context_Background :: go_context where
  "context_Background = Context None NoValue"

text \<open>Assignments to fields of the handle.\<close>

definition set_ctx_span :: "go_context \<Rightarrow> span_context \<Rightarrow> eotel \<Rightarrow> eotel" where
  "set_ctx_span c s l = Eotel c (logger l) (tracer l) (meter l) (Some s) (logCounter l)
     (durationHist l) (fields l) (attrs l) (err l) (name l) (start l) (exporter l)"

definition set_fields :: "zap_field list \<Rightarrow> eotel \<Rightarrow> eotel" where
  "set_fields fs l = Eotel (ctx l) (logger l) (tracer l) (meter l) (span l) (logCounter l)
     (durationHist l) fs (attrs l) (err l) (name l) (start l) (exporter l)"

definition set_attrs :: "key_value list \<Rightarrow> eotel \<Rightarrow> eotel" where
  "set_attrs as l = Eotel (ctx l) (logger l) (tracer l) (meter l) (span l) (logCounter l)
     (durationHist l) (fields l) as (err l) (name l) (start l) (exporter l)"

definition set_err :: "go_error \<Rightarrow> eotel \<Rightarrow> eotel" where
  "set_err e l = Eotel (ctx l) (logger l) (tracer l) (meter l) (span l) (logCounter l)
     (durationHist l) (fields l) (attrs l) (Some e) (name l) (start l) (exporter l)"

definition set_name :: "string \<Rightarrow> eotel \<Rightarrow> eotel" where
  "set_name n l = Eotel (ctx l) (logger l) (tracer l) (meter l) (span l) (logCounter l)
     (durationHist l) (fields l) (attrs l) (err l) n (start l) (exporter l)"

text \<open>
  \<^verbatim>\<open>tracer.Start(ctx, name)\<close> of a recording tracer: the new span has a fresh span id; it
  joins the trace of the span that \<^verbatim>\<open>ctx\<close> carries, or opens a new trace when \<^verbatim>\<open>ctx\<close>
  carries none. The returned context carries the new span.
\<close>

definition start_span :: "world \<Rightarrow> go_context \<Rightarrow> span_context" where
  "start_span w c =
     SpanContext (case ctx_span c of None \<Rightarrow> next_id w | Some p \<Rightarrow> TraceID p) (next_id w)"

definition tracer_Start :: "world \<Rightarrow> tracer \<Rightarrow> go_context \<Rightarrow> string \<Rightarrow> world \<times> go_context \<times> span_context" where
  "tracer_Start w t c n =
     (emit (TracerStart t (ctx_span c) n (start_span w c)) (w\<lparr>next_id := Suc (next_id w)\<rparr>),
      Context (Some (start_span w c)) (ctx_logger c),
      start_span w c)"

text \<open>The \<^verbatim>\<open>switch level\<close> of \<^verbatim>\<open>log\<close>, on a logger that is not nil.\<close>

definition zap_log :: "world \<Rightarrow> zap_logger \<Rightarrow> string \<Rightarrow> string \<Rightarrow> zap_field list \<Rightarrow> unit outcome" where
  "zap_log w lg level msg fs =
     (if level = ''info'' \<or> level = ''error'' \<or> level = ''debug'' \<or> level = ''warn''
      then Returned (emit (ZapLog lg level msg fs) w) ()
      else if level = ''fatal''
      then (if fatal_exits lg then Exited (emit (ZapLog lg level msg fs) w) 1
            else Returned (emit (ZapLog lg level msg fs) w) ())
      else Returned w ())"

section \<open>The handle of \<^verbatim>\<open>src/unnamed/part_001\<close>\<close>

definition initMetrics :: "meter \<Rightarrow> instrument \<times> instrument" where
  "initMetrics m = (Int64Counter ''log_total'', Float64Histogram ''log_duration_ms'')"

definition New :: "world \<Rightarrow> go_context \<Rightarrow> string \<Rightarrow> eotel" where
  "New w c n =
     Eotel c (Some (zap_L w)) (Some (Tracer (ServiceName (globalCfg w))))
       (Some (Meter (ServiceName (globalCfg w))))
       None
       (Some (fst (initMetrics (Meter (ServiceName (globalCfg w))))))
       (Some (snd (initMetrics (Meter (ServiceName (globalCfg w))))))
       [] [] None n (now w) None"

definition Noop :: "world \<Rightarrow> string \<Rightarrow> eotel" where
  "Noop w n =
     Eotel context_Background (Some zap_NewNop) None None None None None [] [] None n (now w) None"

definition Inject :: "go_context \<Rightarrow> eotel option \<Rightarrow> go_context" where
  "Inject c lg = Context (ctx_span c) (EotelPtr lg)"

definition FromContext :: "world \<Rightarrow> go_context \<Rightarrow> string \<Rightarrow> eotel option" where
  "FromContext w c n =
     (case ctx_logger c of
        NoValue \<Rightarrow> Some (Noop w n)
      | OtherValue \<Rightarrow> Some (Noop w n)
      | EotelPtr lg \<Rightarrow> (if lg \<noteq> None then lg else Some (Noop w n)))"

datatype gin_context = GinContext (Request_Context: go_context)

definition FromGin :: "world \<Rightarrow> gin_context \<Rightarrow> string \<Rightarrow> eotel option" where
  "FromGin w c n = FromContext w (Request_Context c) n"

definition Safe :: "world \<Rightarrow> eotel option \<Rightarrow> eotel option" where
  "Safe w l = (if l = None then Some (Noop w ''safe'') else l)"

definition startSpanIfNeeded :: "world \<Rightarrow> eotel \<Rightarrow> eotel outcome" where
  "startSpanIfNeeded w l =
     (if span l = None
      then (case tracer l of
              None \<Rightarrow> Panicked w nil_dereference
            | Some t \<Rightarrow>
                (case tracer_Start w t (ctx l) (name l) of
                   (w', c', s) \<Rightarrow> Returned w' (set_ctx_span c' s l)))
      else Returned w l)"

definition synthesized :: "string \<Rightarrow> string \<Rightarrow> int \<Rightarrow> key_value list" where
  "synthesized msg level durationMs =
     [attribute_String ''log.message'' msg,
      attribute_String ''log.level'' level,
      attribute_Float64 ''duration_ms'' durationMs]"

text \<open>
  \<^verbatim>\<open>sort.SliceStable(l.attrs, func(i, j) { return Key(i) < Key(j) })\<close> is the stable sort by
  key; Go compares strings byte by byte, as the order on \<open>string\<close> does here.
\<close>

definition SliceStable :: "key_value list \<Rightarrow> key_value list" where
  "SliceStable as = sort_key Key as"

definition flush :: "world \<Rightarrow> eotel \<Rightarrow> world" where
  "flush w l =
     (case span l of
        None \<Rightarrow> w
      | Some s \<Rightarrow>
          emit (SpanEnd s)
            (case err l of
               None \<Rightarrow> emit (SetAttributes s (attrs l)) w
             | Some e \<Rightarrow>
                 emit (RecordError s e)
                   (emit (SetStatusError s e) (emit (SetAttributes s (attrs l)) w))))"

definition endSpan :: "world \<Rightarrow> eotel option \<Rightarrow> string \<Rightarrow> string \<Rightarrow> eotel option outcome" where
  "endSpan w l msg level =
     (case l of
        None \<Rightarrow> Returned w None
      | Some h \<Rightarrow>
          (let durationMs = now w - start h;
               h1 = set_attrs (SliceStable (attrs h @ synthesized msg level durationMs)) h;
               w1 = flush w h1
           in if meter h1 \<noteq> None
              then (case logCounter h1 of
                      None \<Rightarrow> Panicked w1 nil_dereference
                    | Some c \<Rightarrow>
                        (case durationHist h1 of
                           None \<Rightarrow> Panicked (emit (CounterAdd c 1 level) w1) nil_dereference
                         | Some d \<Rightarrow>
                             Returned
                               (emit (HistogramRecord d durationMs level)
                                  (emit (CounterAdd c 1 level) w1))
                               (Some h1)))
              else Returned w1 (Some h1)))"

definition log_fields :: "world \<Rightarrow> span_context \<Rightarrow> string \<Rightarrow> eotel \<Rightarrow> zap_field list" where
  "log_fields w sc level l =
     [zap_String ''trace_id'' (TraceID_String sc),
      zap_String ''span_id'' (SpanID_String sc),
      zap_String ''job'' (JobName (globalCfg w)),
      zap_String ''service'' (ServiceName (globalCfg w)),
      zap_String ''level'' level] @ fields l"

definition send :: "world \<Rightarrow> eotel \<Rightarrow> span_context \<Rightarrow> string \<Rightarrow> string \<Rightarrow> world" where
  "send w l sc level msg =
     (case exporter l of
        None \<Rightarrow> w
      | Some x \<Rightarrow>
          (if EnableLoki (globalCfg w)
           then emit (ExporterSend x level msg (TraceID_String sc) (SpanID_String sc)) w
           else w))"

definition log :: "world \<Rightarrow> eotel option \<Rightarrow> string \<Rightarrow> string \<Rightarrow> eotel option outcome" where
  "log w l level msg =
     (case l of
        None \<Rightarrow> Returned (emit (Printf (''['' @ level @ ''] '' @ msg @ [CHR 0x0A])) w) None
      | Some h \<Rightarrow>
          and_then (startSpanIfNeeded w h) (\<lambda>w1 h1.
            (let sc = (case span h1 of None \<Rightarrow> SpanContext 0 0 | Some s \<Rightarrow> s)
             in and_then
                  (case logger h1 of
                     None \<Rightarrow> Returned w1 ()
                   | Some lg \<Rightarrow> zap_log w1 lg level msg (log_fields w1 sc level h1))
                  (\<lambda>w2 u. endSpan (send w2 h1 sc level msg) (Some h1) msg level))))"

definition Info :: "world \<Rightarrow> eotel option \<Rightarrow> string \<Rightarrow> eotel option outcome" where
  "Info w l msg = log w l ''info'' msg"

definition Error :: "world \<Rightarrow> eotel option \<Rightarrow> string \<Rightarrow> eotel option outcome" where
  "Error w l msg = log w l ''error'' msg"

definition Debug :: "world \<Rightarrow> eotel option \<Rightarrow> string \<Rightarrow> eotel option outcome" where
  "Debug w l msg = log w l ''debug'' msg"

definition Warn :: "world \<Rightarrow> eotel option \<Rightarrow> string \<Rightarrow> eotel option outcome" where
  "Warn w l msg = log w l ''warn'' msg"

definition Fatal :: "world \<Rightarrow> eotel option \<Rightarrow> string \<Rightarrow> eotel option outcome" where
  "Fatal w l msg =
     and_then (log w l ''fatal'' msg) (\<lambda>w1 l1.
       (case l1 of
          None \<Rightarrow> Panicked w1 nil_dereference
        | Some h \<Rightarrow>
            Exited (case span h of None \<Rightarrow> w1 | Some s \<Rightarrow> emit (SpanEnd s) w1) 1))"

definition TraceName :: "world \<Rightarrow> eotel option \<Rightarrow> string \<Rightarrow> eotel option outcome" where
  "TraceName w l n =
     (case l of
        None \<Rightarrow> Panicked w nil_dereference
      | Some h \<Rightarrow> Returned w (Some (set_name n h)))"

definition WithField :: "world \<Rightarrow> eotel option \<Rightarrow> string \<Rightarrow> go_value \<Rightarrow> eotel option" where
  "WithField w l key v =
     (case l of
        None \<Rightarrow> Some (Noop w ''WithField'')
      | Some h \<Rightarrow>
          (if key = ''''
           then Some h
           else Some (set_attrs (attrs h @ [attribute_String key (sprint_v v)])
                        (set_fields (fields h @ [zap_Any key v]) h))))"

text \<open>
  \<^verbatim>\<open>for k, v := range m { l.WithField(k, v) }\<close>: the map is given as the list of its
  entries in the order the runtime happens to visit them. The result of each
  \<^verbatim>\<open>WithField\<close> is dropped; a handle that is not nil has been updated in place.
\<close>

fun WithFields :: "world \<Rightarrow> eotel option \<Rightarrow> (string \<times> go_value) list \<Rightarrow> eotel option" where
  "WithFields w l [] = l"
| "WithFields w l ((k, v) # m) =
     WithFields w (if l = None then l else WithField w l k v) m"

definition WithError :: "world \<Rightarrow> eotel option \<Rightarrow> go_error option \<Rightarrow> eotel option outcome" where
  "WithError w l e =
     (case e of
        None \<Rightarrow> Returned w l
      | Some m \<Rightarrow>
          (case l of
             None \<Rightarrow> Panicked w nil_dereference
           | Some h \<Rightarrow>
               (let h1 = set_attrs (attrs h @ [attribute_String ''error'' m])
                           (set_fields (fields h @ [zap_Error m]) (set_err m h))
                in case exporter h1 of
                     None \<Rightarrow> Returned w (Some h1)
                   | Some x \<Rightarrow>
                       Returned
                         (emit (ExporterCaptureError x m [] [(''error'', VString m)]) w)
                         (Some h1))))"

definition Child :: "world \<Rightarrow> eotel option \<Rightarrow> string \<Rightarrow> eotel option outcome" where
  "Child w l n =
     (case l of
        None \<Rightarrow> Returned w (Some (Noop w n))
      | Some h \<Rightarrow>
          (let t = (case tracer h of
                      None \<Rightarrow> Tracer (ServiceName (globalCfg w))
                    | Some t' \<Rightarrow> t')
           in case tracer_Start w t (ctx h) n of
                (w', c', s) \<Rightarrow>
                  Returned w'
                    (Some (Eotel c' (logger h) (Some t) (meter h) (Some s) (logCounter h)
                             (durationHist h) [] [] None n (now w') (exporter h)))))"

text \<open>
  The function \<^verbatim>\<open>RecoverPanic(c)\<close> returns, run while \<open>rec\<close> is what \<^verbatim>\<open>recover()\<close> gives
  (\<open>VNil\<close> when no panic is in flight). \<^verbatim>\<open>trace.SpanFromContext\<close> gives a span that
  ignores every call when the context carries none.
\<close>

definition RecoverPanic :: "world \<Rightarrow> gin_context \<Rightarrow> go_value \<Rightarrow> unit outcome" where
  "RecoverPanic w c rec =
     (if rec \<noteq> VNil
      then (let e = ''panic: '' @ sprint_v rec
            in and_then (WithError w (Safe w (FromGin w c ''panic'')) (Some e)) (\<lambda>w1 lg.
                 and_then (Error w1 lg ''unhandled panic'') (\<lambda>w2 l2.
                   Returned
                     (emit (AbortWithStatusJSON 500 [(''error'', ''internal server error'')])
                        (case ctx_span (Request_Context c) of
                           None \<Rightarrow> w2
                         | Some s \<Rightarrow> emit (SetStatusError s e) (emit (RecordError s e) w2)))
                     ())))
      else Returned w ())"

text \<open>Sequences of calls on a handle, as a caller chains them.\<close>

datatype method_call =
    CallWithField string go_value
  | CallWithFields "(string \<times> go_value) list"
  | CallWithError "go_error option"
  | CallInfo string
  | CallError string
  | CallDebug string
  | CallWarn string
  | CallFatal string

fun is_logging :: "method_call \<Rightarrow> bool" where
  "is_logging (CallWithField k v) = False"
| "is_logging (CallWithFields m) = False"
| "is_logging (CallWithError e) = False"
| "is_logging c = True"

fun call :: "world \<Rightarrow> eotel option \<Rightarrow> method_call \<Rightarrow> eotel option outcome" where
  "call w l (CallWithField k v) = Returned w (WithField w l k v)"
| "call w l (CallWithFields m) = Returned w (WithFields w l m)"
| "call w l (CallWithError e) = WithError w l e"
| "call w l (CallInfo msg) = Info w l msg"
| "call w l (CallError msg) = Error w l msg"
| "call w l (CallDebug msg) = Debug w l msg"
| "call w l (CallWarn msg) = Warn w l msg"
| "call w l (CallFatal msg) = Fatal w l msg"

fun calls :: "world \<Rightarrow> eotel option \<Rightarrow> method_call list \<Rightarrow> eotel option outcome" where
  "calls w l [] = Returned w l"
| "calls w l (c # cs) = and_then (call w l c) (\<lambda>w1 l1. calls w1 l1 cs)"

section \<open>The handle of \<^verbatim>\<open>src/eotel.go\<close>\<close>

text \<open>
  \<^verbatim>\<open>New\<close>, \<^verbatim>\<open>startSpanIfNeeded\<close> and \<^verbatim>\<open>initMetrics\<close> read the same in both files, and
  \<^verbatim>\<open>Inject\<close> differs only in having a receiver it does not use; the definitions above
  stand for both. In this file no method checks its receiver, and there is no
  \<^verbatim>\<open>Noop\<close> handle: \<^verbatim>\<open>FromContext\<close> falls back to \<^verbatim>\<open>New\<close>.
\<close>

definition FromContext_eotel :: "world \<Rightarrow> eotel option \<Rightarrow> go_context \<Rightarrow> string \<Rightarrow> eotel option" where
  "FromContext_eotel w l c n =
     (case ctx_logger c of
        NoValue \<Rightarrow> Some (New w c n)
      | OtherValue \<Rightarrow> Some (New w c n)
      | EotelPtr lg \<Rightarrow> lg)"

definition FromGin_eotel :: "world \<Rightarrow> eotel option \<Rightarrow> gin_context \<Rightarrow> string \<Rightarrow> eotel option" where
  "FromGin_eotel w l c n = FromContext_eotel w l (Request_Context c) n"

definition flush_eotel :: "world \<Rightarrow> eotel \<Rightarrow> world" where
  "flush_eotel w l =
     (case span l of
        None \<Rightarrow> w
      | Some s \<Rightarrow>
          emit (SpanEnd s)
            (case err l of
               None \<Rightarrow> emit (SetAttributes s (attrs l)) w
             | Some e \<Rightarrow> emit (RecordError s e) (emit (SetAttributes s (attrs l)) w)))"

definition endSpan_eotel :: "world \<Rightarrow> eotel option \<Rightarrow> string \<Rightarrow> string \<Rightarrow> eotel option outcome" where
  "endSpan_eotel w l msg level =
     (case l of
        None \<Rightarrow> Panicked w nil_dereference
      | Some h \<Rightarrow>
          (let durationMs = now w - start h;
               h1 = set_attrs (SliceStable (attrs h @ synthesized msg level durationMs)) h;
               w1 = flush_eotel w h1
           in case logCounter h1 of
                None \<Rightarrow> Panicked w1 nil_dereference
              | Some c \<Rightarrow>
                  (case durationHist h1 of
                     None \<Rightarrow> Panicked (emit (CounterAdd c 1 level) w1) nil_dereference
                   | Some d \<Rightarrow>
                       Returned
                         (emit (HistogramRecord d durationMs level)
                            (emit (CounterAdd c 1 level) w1))
                         (Some h1))))"

text \<open>The \<^verbatim>\<open>switch level\<close> on a logger that may be nil: a call on the nil logger panics.\<close>

definition zap_log_eotel :: "world \<Rightarrow> zap_logger option \<Rightarrow> string \<Rightarrow> string \<Rightarrow> zap_field list \<Rightarrow> unit outcome" where
  "zap_log_eotel w lg level msg fs =
     (case lg of
        Some g \<Rightarrow> zap_log w g level msg fs
      | None \<Rightarrow>
          (if level = ''info'' \<or> level = ''error'' \<or> level = ''debug'' \<or> level = ''warn''
              \<or> level = ''fatal''
           then Panicked w nil_dereference
           else Returned w ()))"

definition send_eotel :: "world \<Rightarrow> eotel \<Rightarrow> span_context \<Rightarrow> string \<Rightarrow> string \<Rightarrow> unit outcome" where
  "send_eotel w l sc level msg =
     (if EnableLoki (globalCfg w)
      then (case exporter l of
              None \<Rightarrow> Panicked w nil_dereference
            | Some x \<Rightarrow>
                Returned
                  (emit (ExporterSend x level msg (TraceID_String sc) (SpanID_String sc)) w) ())
      else Returned w ())"

definition log_eotel :: "world \<Rightarrow> eotel option \<Rightarrow> string \<Rightarrow> string \<Rightarrow> eotel option outcome" where
  "log_eotel w l level msg =
     (case l of
        None \<Rightarrow> Panicked w nil_dereference
      | Some h \<Rightarrow>
          and_then (startSpanIfNeeded w h) (\<lambda>w1 h1.
            (case span h1 of
               None \<Rightarrow> Panicked w1 nil_dereference
             | Some sc \<Rightarrow>
                 and_then (zap_log_eotel w1 (logger h1) level msg (log_fields w1 sc level h1))
                   (\<lambda>w2 u.
                      and_then (send_eotel w2 h1 sc level msg)
                        (\<lambda>w3 u. endSpan_eotel w3 (Some h1) msg level)))))"

definition Info_eotel :: "world \<Rightarrow> eotel option \<Rightarrow> string \<Rightarrow> eotel option outcome" where
  "Info_eotel w l msg = log_eotel w l ''info'' msg"

definition Error_eotel :: "world \<Rightarrow> eotel option \<Rightarrow> string \<Rightarrow> eotel option outcome" where
  "Error_eotel w l msg = log_eotel w l ''error'' msg"

definition Debug_eotel :: "world \<Rightarrow> eotel option \<Rightarrow> string \<Rightarrow> eotel option outcome" where
  "Debug_eotel w l msg = log_eotel w l ''debug'' msg"

definition Warn_eotel :: "world \<Rightarrow> eotel option \<Rightarrow> string \<Rightarrow> eotel option outcome" where
  "Warn_eotel w l msg = log_eotel w l ''warn'' msg"

definition Fatal_eotel :: "world \<Rightarrow> eotel option \<Rightarrow> string \<Rightarrow> eotel option outcome" where
  "Fatal_eotel w l msg =
     and_then (log_eotel w l ''fatal'' msg) (\<lambda>w1 l1.
       (case l1 of
          None \<Rightarrow> Panicked w1 nil_dereference
        | Some h \<Rightarrow>
            Exited (case span h of None \<Rightarrow> w1 | Some s \<Rightarrow> emit (SpanEnd s) w1) 1))"

definition WithField_eotel :: "world \<Rightarrow> eotel option \<Rightarrow> string \<Rightarrow> go_value \<Rightarrow> eotel option outcome" where
  "WithField_eotel w l key v =
     (case l of
        None \<Rightarrow> Panicked w nil_dereference
      | Some h \<Rightarrow>
          Returned w
            (Some (set_attrs (attrs h @ [attribute_String key (sprint_v v)])
                     (set_fields (fields h @ [zap_Any key v]) h))))"

fun WithFields_eotel :: "world \<Rightarrow> eotel option \<Rightarrow> (string \<times> go_value) list \<Rightarrow> eotel option outcome" where
  "WithFields_eotel w l [] = Returned w l"
| "WithFields_eotel w l ((k, v) # m) =
     and_then (WithField_eotel w l k v) (\<lambda>w1 l1. WithFields_eotel w1 l1 m)"

definition WithError_eotel :: "world \<Rightarrow> eotel option \<Rightarrow> go_error option \<Rightarrow> eotel option outcome" where
  "WithError_eotel w l e =
     (case e of
        None \<Rightarrow> Returned w l
      | Some m \<Rightarrow>
          (case l of
             None \<Rightarrow> Panicked w nil_dereference
           | Some h \<Rightarrow>
               (let h1 = set_attrs (attrs h @ [attribute_String ''error'' m])
                           (set_fields (fields h @ [zap_Error m]) (set_err m h))
                in case exporter h1 of
                     None \<Rightarrow> Panicked w nil_dereference
                   | Some x \<Rightarrow>
                       Returned
                         (emit (ExporterCaptureError x m [] [(''error'', VString m)]) w)
                         (Some h1))))"

definition Child_eotel :: "world \<Rightarrow> eotel option \<Rightarrow> string \<Rightarrow> eotel option outcome" where
  "Child_eotel w l n =
     (case l of
        None \<Rightarrow> Panicked w nil_dereference
      | Some h \<Rightarrow>
          (case tracer h of
             None \<Rightarrow> Panicked w nil_dereference
           | Some t \<Rightarrow>
               (case tracer_Start w t (ctx h) n of
                  (w', c', s) \<Rightarrow>
                    Returned w'
                      (Some (Eotel c' (logger h) (tracer h) (meter h) (Some s) None None
                               [] [] None [] (now w') (exporter h))))))"

definition RecoverPanic_eotel :: "world \<Rightarrow> eotel option \<Rightarrow> gin_context \<Rightarrow> go_value \<Rightarrow> unit outcome" where
  "RecoverPanic_eotel w l c rec =
     (if rec \<noteq> VNil
      then (let e = ''panic: '' @ sprint_v rec;
                lg0 = FromGin_eotel w l c ''panic'';
                lg = (if lg0 = None then l else lg0)
            in and_then (WithError_eotel w lg (Some e)) (\<lambda>w1 l1.
                 and_then (Error_eotel w1 l1 ''unhandled panic'') (\<lambda>w2 l2.
                   Returned (emit (AbortWithStatus 500) w2) ())))
      else Returned w ())"

fun call_eotel :: "world \<Rightarrow> eotel option \<Rightarrow> method_call \<Rightarrow> eotel option outcome" where
  "call_eotel w l (CallWithField k v) = WithField_eotel w l k v"
| "call_eotel w l (CallWithFields m) = WithFields_eotel w l m"
| "call_eotel w l (CallWithError e) = WithError_eotel w l e"
| "call_eotel w l (CallInfo msg) = Info_eotel w l msg"
| "call_eotel w l (CallError msg) = Error_eotel w l msg"
| "call_eotel w l (CallDebug msg) = Debug_eotel w l msg"
| "call_eotel w l (CallWarn msg) = Warn_eotel w l msg"
| "call_eotel w l (CallFatal msg) = Fatal_eotel w l msg"

fun calls_eotel :: "world \<Rightarrow> eotel option \<Rightarrow> method_call list \<Rightarrow> eotel option outcome" where
  "calls_eotel w l [] = Returned w l"
| "calls_eotel w l (c # cs) = and_then (call_eotel w l c) (\<lambda>w1 l1. calls_eotel w1 l1 cs)"

section \<open>Error reporter and remote log export\<close>

text \<open>\<^verbatim>\<open>CaptureError\<close> of \<^verbatim>\<open>src/sentry.go\<close>.\<close>

definition CaptureError :: "world \<Rightarrow> go_error option \<Rightarrow> (string \<times> string) list \<Rightarrow> (string \<times> go_value) list \<Rightarrow> world" where
  "CaptureError w e tags extras =
     (case e of
        None \<Rightarrow> w
      | Some m \<Rightarrow>
          (if \<not> EnableSentry (globalCfg w) then w
           else emit SentryFlush (emit (SentryCaptureException m tags extras) w)))"

text \<open>
  \<^verbatim>\<open>sendLoki\<close> of \<^verbatim>\<open>src/loki.go\<close>. What the network answers to the post is an input: a
  transport error, or a response with its status code and status line.
\<close>

datatype http_result = HttpFailure go_error | HttpResponse nat string

definition sendLoki :: "world \<Rightarrow> http_result \<Rightarrow> LokiEntry \<Rightarrow> world \<times> go_error option" where
  "sendLoki w net entry =
     (if \<not> EnableLoki (globalCfg w) then (w, None)
      else (let w1 = emit (HttpPost (LokiURL (globalCfg w)) entry (now w)) w
            in case net of
                 HttpFailure e \<Rightarrow> (w1, Some e)
               | HttpResponse code status \<Rightarrow>
                   (if code \<ge> 300 then (w1, Some (''loki response: '' @ status))
                    else (w1, None))))"

text \<open>
  The worker started by \<^verbatim>\<open>init\<close>: it takes the entries of \<^verbatim>\<open>logChan\<close> one by one and
  drops the result of \<^verbatim>\<open>sendLoki\<close>. Here it runs until the queue is empty.
\<close>

fun worker :: "world \<Rightarrow> (LokiEntry \<Rightarrow> http_result) \<Rightarrow> LokiEntry list \<Rightarrow> world" where
  "worker w net [] = w\<lparr>logChan := []\<rparr>"
| "worker w net (entry # rest) = worker (fst (sendLoki w (net entry) entry)) net rest"

section \<open>What the collaborators saw\<close>

fun started :: "event list \<Rightarrow> (string \<times> span_context) list" where
  "started [] = []"
| "started (TracerStart t p n s # es) = (n, s) # started es"
| "started (e # es) = started es"

fun flushes :: "span_context \<Rightarrow> event list \<Rightarrow> key_value list list" where
  "flushes s [] = []"
| "flushes s (SetAttributes s' as # es) = (if s' = s then as # flushes s es else flushes s es)"
| "flushes s (e # es) = flushes s es"

fun status_errors :: "span_context \<Rightarrow> event list \<Rightarrow> string list" where
  "status_errors s [] = []"
| "status_errors s (SetStatusError s' m # es) =
     (if s' = s then m # status_errors s es else status_errors s es)"
| "status_errors s (e # es) = status_errors s es"

fun recorded_errors :: "span_context \<Rightarrow> event list \<Rightarrow> go_error list" where
  "recorded_errors s [] = []"
| "recorded_errors s (RecordError s' m # es) =
     (if s' = s then m # recorded_errors s es else recorded_errors s es)"
| "recorded_errors s (e # es) = recorded_errors s es"

fun sends :: "event list \<Rightarrow> event list" where
  "sends [] = []"
| "sends (ExporterSend x level msg t s # es) = ExporterSend x level msg t s # sends es"
| "sends (HttpPost url entry ts # es) = HttpPost url entry ts # sends es"
| "sends (e # es) = sends es"

fun captures :: "event list \<Rightarrow> event list" where
  "captures [] = []"
| "captures (ExporterCaptureError x m tags extras # es) =
     ExporterCaptureError x m tags extras # captures es"
| "captures (e # es) = captures es"

fun log_lines :: "event list \<Rightarrow> (string \<times> string) list" where
  "log_lines [] = []"
| "log_lines (ZapLog lg level msg fs # es) = (level, msg) # log_lines es"
| "log_lines (e # es) = log_lines es"

fun aborts :: "event list \<Rightarrow> event list" where
  "aborts [] = []"
| "aborts (AbortWithStatus n # es) = AbortWithStatus n # aborts es"
| "aborts (AbortWithStatusJSON n body # es) = AbortWithStatusJSON n body # aborts es"
| "aborts (e # es) = aborts es"

section \<open>Notions used in the statements\<close>

text \<open>What a call returned, if it returned.\<close>

fun returned :: "'a outcome \<Rightarrow> 'a option" where
  "returned (Returned w x) = Some x"
| "returned (Panicked w m) = None"
| "returned (Exited w n) = None"

text \<open>The span of the handle a call returned.\<close>

fun result_span :: "eotel option outcome \<Rightarrow> span_context option" where
  "result_span (Returned w (Some h)) = span h"
| "result_span r = None"

text \<open>
  A receiver on which \<^verbatim>\<open>startSpanIfNeeded\<close> starts nothing: the nil pointer, a handle that
  has its span, or a handle without a tracer.
\<close>

definition span_settled :: "eotel option \<Rightarrow> bool" where
  "span_settled l = (case l of None \<Rightarrow> True | Some h \<Rightarrow> tracer h = None \<or> span h \<noteq> None)"

text \<open>The calls that only add fields: \<^verbatim>\<open>WithField\<close> and \<^verbatim>\<open>WithFields\<close>.\<close>

fun is_field_call :: "method_call \<Rightarrow> bool" where
  "is_field_call (CallWithField k v) = True"
| "is_field_call (CallWithFields m) = True"
| "is_field_call c = False"

text \<open>
  The attributes a sequence of field calls asks for, in the order of the calls: one per
  entry, the value rendered with \<^verbatim>\<open>%v\<close>.
\<close>

fun requested :: "method_call list \<Rightarrow> key_value list" where
  "requested [] = []"
| "requested (CallWithField k v # cs) = attribute_String k (sprint_v v) # requested cs"
| "requested (CallWithFields m # cs) =
     map (\<lambda>(k, v). attribute_String k (sprint_v v)) m @ requested cs"
| "requested (c # cs) = requested cs"

text \<open>An error was given to \<^verbatim>\<open>WithError\<close> somewhere in a sequence of calls.\<close>

fun error_given :: "method_call list \<Rightarrow> bool" where
  "error_given [] = False"
| "error_given (CallWithError (Some e) # cs) = True"
| "error_given (c # cs) = error_given cs"

text \<open>A world and a request to try the definitions on.\<close>

definition cfg0 :: Config where
  "cfg0 = \<lparr>ServiceName = ''shop'', JobName = ''api'', OtelCollector = ''collector:4317'',
     EnableTracing = True, EnableMetrics = True, EnableSentry = False, EnableLoki = False,
     SentryDSN = '''', LokiURL = ''http://loki/push''\<rparr>"

definition w0 :: world where
  "w0 = \<lparr>globalCfg = cfg0, now = 1000, next_id = 1, zap_L = ZapLogger ''global'' True,
     logChan = [], events = []\<rparr>"

section \<open>Auxiliary facts\<close>

lemma set_ctx_span_sel [simp]:
  "ctx (set_ctx_span c s l) = c"
  "logger (set_ctx_span c s l) = logger l"
  "tracer (set_ctx_span c s l) = tracer l"
  "meter (set_ctx_span c s l) = meter l"
  "span (set_ctx_span c s l) = Some s"
  "logCounter (set_ctx_span c s l) = logCounter l"
  "durationHist (set_ctx_span c s l) = durationHist l"
  "fields (set_ctx_span c s l) = fields l"
  "attrs (set_ctx_span c s l) = attrs l"
  "err (set_ctx_span c s l) = err l"
  "name (set_ctx_span c s l) = name l"
  "start (set_ctx_span c s l) = start l"
  "exporter (set_ctx_span c s l) = exporter l"
  by (simp_all add: set_ctx_span_def)

lemma set_fields_sel [simp]:
  "ctx (set_fields fs l) = ctx l"
  "logger (set_fields fs l) = logger l"
  "tracer (set_fields fs l) = tracer l"
  "meter (set_fields fs l) = meter l"
  "span (set_fields fs l) = span l"
  "logCounter (set_fields fs l) = logCounter l"
  "durationHist (set_fields fs l) = durationHist l"
  "fields (set_fields fs l) = fs"
  "attrs (set_fields fs l) = attrs l"
  "err (set_fields fs l) = err l"
  "name (set_fields fs l) = name l"
  "start (set_fields fs l) = start l"
  "exporter (set_fields fs l) = exporter l"
  by (simp_all add: set_fields_def)

lemma set_attrs_sel [simp]:
  "ctx (set_attrs as l) = ctx l"
  "logger (set_attrs as l) = logger l"
  "tracer (set_attrs as l) = tracer l"
  "meter (set_attrs as l) = meter l"
  "span (set_attrs as l) = span l"
  "logCounter (set_attrs as l) = logCounter l"
  "durationHist (set_attrs as l) = durationHist l"
  "fields (set_attrs as l) = fields l"
  "attrs (set_attrs as l) = as"
  "err (set_attrs as l) = err l"
  "name (set_attrs as l) = name l"
  "start (set_attrs as l) = start l"
  "exporter (set_attrs as l) = exporter l"
  by (simp_all add: set_attrs_def)

lemma set_err_sel [simp]:
  "ctx (set_err e l) = ctx l"
  "logger (set_err e l) = logger l"
  "tracer (set_err e l) = tracer l"
  "meter (set_err e l) = meter l"
  "span (set_err e l) = span l"
  "logCounter (set_err e l) = logCounter l"
  "durationHist (set_err e l) = durationHist l"
  "fields (set_err e l) = fields l"
  "attrs (set_err e l) = attrs l"
  "err (set_err e l) = Some e"
  "name (set_err e l) = name l"
  "start (set_err e l) = start l"
  "exporter (set_err e l) = exporter l"
  by (simp_all add: set_err_def)

lemma set_name_sel [simp]:
  "ctx (set_name n l) = ctx l"
  "logger (set_name n l) = logger l"
  "tracer (set_name n l) = tracer l"
  "meter (set_name n l) = meter l"
  "span (set_name n l) = span l"
  "logCounter (set_name n l) = logCounter l"
  "durationHist (set_name n l) = durationHist l"
  "fields (set_name n l) = fields l"
  "attrs (set_name n l) = attrs l"
  "err (set_name n l) = err l"
  "name (set_name n l) = n"
  "start (set_name n l) = start l"
  "exporter (set_name n l) = exporter l"
  by (simp_all add: set_name_def)

lemma emit_sel [simp]:
  "events (emit e w) = events w @ [e]"
  "globalCfg (emit e w) = globalCfg w"
  "now (emit e w) = now w"
  "next_id (emit e w) = next_id w"
  "zap_L (emit e w) = zap_L w"
  "logChan (emit e w) = logChan w"
  by (simp_all add: emit_def)

lemma started_append [simp]: "started (xs @ ys) = started xs @ started ys"
  by (induction xs rule: started.induct) simp_all

lemma flushes_append [simp]: "flushes s (xs @ ys) = flushes s xs @ flushes s ys"
  by (induction s xs rule: flushes.induct) simp_all

lemma status_errors_append [simp]:
  "status_errors s (xs @ ys) = status_errors s xs @ status_errors s ys"
  by (induction s xs rule: status_errors.induct) simp_all

lemma recorded_errors_append [simp]:
  "recorded_errors s (xs @ ys) = recorded_errors s xs @ recorded_errors s ys"
  by (induction s xs rule: recorded_errors.induct) simp_all

lemma sends_append [simp]: "sends (xs @ ys) = sends xs @ sends ys"
  by (induction xs rule: sends.induct) simp_all

lemma captures_append [simp]: "captures (xs @ ys) = captures xs @ captures ys"
  by (induction xs rule: captures.induct) simp_all

lemma log_lines_append [simp]: "log_lines (xs @ ys) = log_lines xs @ log_lines ys"
  by (induction xs rule: log_lines.induct) simp_all

lemma aborts_append [simp]: "aborts (xs @ ys) = aborts xs @ aborts ys"
  by (induction xs rule: aborts.induct) simp_all

lemma world_of_and_then:
  "world_of (and_then m f) =
     (case m of Returned w x \<Rightarrow> world_of (f w x) | Panicked w s \<Rightarrow> w | Exited w n \<Rightarrow> w)"
  by (cases m) simp_all

lemma and_then_keeps:
  assumes "g (world_of m) = g w"
    and "\<And>w1 x. m = Returned w1 x \<Longrightarrow> g (world_of (f w1 x)) = g w1"
  shows "g (world_of (and_then m f)) = g w"
  using assms by (cases m) auto

lemma and_then_Returned:
  assumes "and_then m f = Returned w' y"
  obtains w1 x where "m = Returned w1 x" and "f w1 x = Returned w' y"
  using assms by (cases m) auto

text \<open>The parts of the world no call of the package changes.\<close>

lemma startSpanIfNeeded_cases:
  "startSpanIfNeeded w h =
     (if span h \<noteq> None then Returned w h
      else case tracer h of
             None \<Rightarrow> Panicked w nil_dereference
           | Some t \<Rightarrow>
               Returned
                 (emit (TracerStart t (ctx_span (ctx h)) (name h) (start_span w (ctx h)))
                    (w\<lparr>next_id := Suc (next_id w)\<rparr>))
                 (set_ctx_span (Context (Some (start_span w (ctx h))) (ctx_logger (ctx h)))
                    (start_span w (ctx h)) h))"
  by (simp add: startSpanIfNeeded_def tracer_Start_def split: option.splits)

lemma startSpanIfNeeded_env:
  "globalCfg (world_of (startSpanIfNeeded w h)) = globalCfg w"
  "now (world_of (startSpanIfNeeded w h)) = now w"
  "logChan (world_of (startSpanIfNeeded w h)) = logChan w"
  "sends (events (world_of (startSpanIfNeeded w h))) = sends (events w)"
  by (simp_all add: startSpanIfNeeded_cases split: option.splits)

lemma startSpanIfNeeded_started:
  "started (events (world_of (startSpanIfNeeded w h))) =
     started (events w) @
       (if span h = None \<and> tracer h \<noteq> None then [(name h, start_span w (ctx h))] else [])"
  by (simp add: startSpanIfNeeded_cases split: option.splits)

lemma startSpanIfNeeded_Returned:
  assumes "startSpanIfNeeded w h = Returned w1 h1"
  shows "span h1 = (if span h = None then Some (start_span w (ctx h)) else span h)"
    and "attrs h1 = attrs h" and "fields h1 = fields h" and "err h1 = err h"
    and "start h1 = start h" and "exporter h1 = exporter h" and "logger h1 = logger h"
    and "meter h1 = meter h" and "logCounter h1 = logCounter h"
    and "durationHist h1 = durationHist h" and "tracer h1 = tracer h" and "name h1 = name h"
    and "now w1 = now w" and "globalCfg w1 = globalCfg w"
    and "flushes s (events w1) = flushes s (events w)"
    and "status_errors s (events w1) = status_errors s (events w)"
    and "recorded_errors s (events w1) = recorded_errors s (events w)"
  using assms by (auto simp: startSpanIfNeeded_cases split: if_splits option.splits)

lemma zap_log_env:
  "globalCfg (world_of (zap_log w lg level msg fs)) = globalCfg w"
  "now (world_of (zap_log w lg level msg fs)) = now w"
  "logChan (world_of (zap_log w lg level msg fs)) = logChan w"
  "next_id (world_of (zap_log w lg level msg fs)) = next_id w"
  "sends (events (world_of (zap_log w lg level msg fs))) = sends (events w)"
  "started (events (world_of (zap_log w lg level msg fs))) = started (events w)"
  "flushes s (events (world_of (zap_log w lg level msg fs))) = flushes s (events w)"
  "status_errors s (events (world_of (zap_log w lg level msg fs))) = status_errors s (events w)"
  "recorded_errors s (events (world_of (zap_log w lg level msg fs))) = recorded_errors s (events w)"
  by (simp_all add: zap_log_def)

lemma send_env:
  "globalCfg (send w l sc level msg) = globalCfg w"
  "now (send w l sc level msg) = now w"
  "logChan (send w l sc level msg) = logChan w"
  "next_id (send w l sc level msg) = next_id w"
  "started (events (send w l sc level msg)) = started (events w)"
  "flushes s (events (send w l sc level msg)) = flushes s (events w)"
  "status_errors s (events (send w l sc level msg)) = status_errors s (events w)"
  "recorded_errors s (events (send w l sc level msg)) = recorded_errors s (events w)"
  by (simp_all add: send_def split: option.splits)

lemma send_quiet:
  "\<not> EnableLoki (globalCfg w) \<Longrightarrow> send w l sc level msg = w"
  by (simp add: send_def split: option.splits)

lemma flush_env:
  "globalCfg (flush w l) = globalCfg w"
  "now (flush w l) = now w"
  "logChan (flush w l) = logChan w"
  "next_id (flush w l) = next_id w"
  "started (events (flush w l)) = started (events w)"
  "sends (events (flush w l)) = sends (events w)"
  by (simp_all add: flush_def split: option.splits)

lemma flush_span:
  "span l = Some s \<Longrightarrow> flushes s (events (flush w l)) = flushes s (events w) @ [attrs l]"
  "span l = Some s \<Longrightarrow>
     status_errors s (events (flush w l)) =
       status_errors s (events w) @ (case err l of None \<Rightarrow> [] | Some e \<Rightarrow> [e])"
  "span l = Some s \<Longrightarrow>
     recorded_errors s (events (flush w l)) =
       recorded_errors s (events w) @ (case err l of None \<Rightarrow> [] | Some e \<Rightarrow> [e])"
  by (simp_all add: flush_def split: option.splits)

lemma endSpan_env:
  "globalCfg (world_of (endSpan w l msg level)) = globalCfg w"
  "now (world_of (endSpan w l msg level)) = now w"
  "logChan (world_of (endSpan w l msg level)) = logChan w"
  "next_id (world_of (endSpan w l msg level)) = next_id w"
  "started (events (world_of (endSpan w l msg level))) = started (events w)"
  "sends (events (world_of (endSpan w l msg level))) = sends (events w)"
  by (simp_all add: endSpan_def Let_def flush_env split: option.splits)

lemma endSpan_span:
  assumes "span h = Some s"
  shows "flushes s (events (world_of (endSpan w (Some h) msg level))) =
           flushes s (events w) @ [SliceStable (attrs h @ synthesized msg level (now w - start h))]"
    and "status_errors s (events (world_of (endSpan w (Some h) msg level))) =
           status_errors s (events w) @ (case err h of None \<Rightarrow> [] | Some e \<Rightarrow> [e])"
    and "recorded_errors s (events (world_of (endSpan w (Some h) msg level))) =
           recorded_errors s (events w) @ (case err h of None \<Rightarrow> [] | Some e \<Rightarrow> [e])"
  using assms by (simp_all add: endSpan_def Let_def flush_span split: option.splits)

lemma endSpan_Returned:
  assumes "endSpan w (Some h) msg level = Returned w' l'"
  shows "l' = Some (set_attrs (SliceStable (attrs h @ synthesized msg level (now w - start h))) h)"
  using assms by (auto simp: endSpan_def Let_def split: option.splits if_splits)

lemma log_tail_keeps:
  fixes g :: "world \<Rightarrow> 'a"
  assumes zap: "\<And>w' lg fs. globalCfg w' = globalCfg w \<Longrightarrow> g (world_of (zap_log w' lg level msg fs)) = g w'"
    and snd: "\<And>w' h sc. globalCfg w' = globalCfg w \<Longrightarrow> g (send w' h sc level msg) = g w'"
    and fin: "\<And>w' l. globalCfg w' = globalCfg w \<Longrightarrow> g (world_of (endSpan w' l msg level)) = g w'"
  shows "g (world_of
           (and_then
              (case logger h1 of
                 None \<Rightarrow> Returned w ()
               | Some lg \<Rightarrow> zap_log w lg level msg fs)
              (\<lambda>w2 u. endSpan (send w2 h1 sc level msg) (Some h1) msg level))) = g w"
proof (rule and_then_keeps)
  show "g (world_of (case logger h1 of None \<Rightarrow> Returned w () | Some lg \<Rightarrow> zap_log w lg level msg fs)) = g w"
    by (simp add: zap split: option.splits)
next
  fix w1 and x :: unit
  assume r: "(case logger h1 of None \<Rightarrow> Returned w () | Some lg \<Rightarrow> zap_log w lg level msg fs) = Returned w1 x"
  have c: "globalCfg w1 = globalCfg w"
  proof (cases "logger h1")
    case None
    with r show ?thesis by simp
  next
    case (Some lg)
    with r zap_log_env(1)[of w lg level msg fs] show ?thesis by simp
  qed
  have c2: "globalCfg (send w1 h1 sc level msg) = globalCfg w"
    by (simp add: send_env c)
  show "g (world_of (endSpan (send w1 h1 sc level msg) (Some h1) msg level)) = g w1"
    by (simp add: fin [OF c2] snd [OF c])
qed

lemma log_keeps:
  fixes g :: "world \<Rightarrow> 'a"
  assumes start: "\<And>h. g (world_of (startSpanIfNeeded w h)) = g w"
    and zap: "\<And>w' lg fs. globalCfg w' = globalCfg w \<Longrightarrow> g (world_of (zap_log w' lg level msg fs)) = g w'"
    and snd: "\<And>w' h sc. globalCfg w' = globalCfg w \<Longrightarrow> g (send w' h sc level msg) = g w'"
    and fin: "\<And>w' l. globalCfg w' = globalCfg w \<Longrightarrow> g (world_of (endSpan w' l msg level)) = g w'"
    and prt: "\<And>s. g (emit (Printf s) w) = g w"
  shows "g (world_of (log w l level msg)) = g w"
proof (cases l)
  case None
  then show ?thesis by (simp add: log_def prt)
next
  case (Some h)
  show ?thesis
    unfolding log_def Some option.case Let_def
  proof (rule and_then_keeps)
    show "g (world_of (startSpanIfNeeded w h)) = g w" by (rule start)
  next
    fix w1 h1
    assume r: "startSpanIfNeeded w h = Returned w1 h1"
    from startSpanIfNeeded_env(1)[of w h] r have c: "globalCfg w1 = globalCfg w" by simp
    show "g (world_of
           (and_then
              (case logger h1 of
                 None \<Rightarrow> Returned w1 ()
               | Some lg \<Rightarrow> zap_log w1 lg level msg
                   (log_fields w1 (case span h1 of None \<Rightarrow> SpanContext 0 0 | Some s \<Rightarrow> s) level h1))
              (\<lambda>w2 u. endSpan (send w2 h1 (case span h1 of None \<Rightarrow> SpanContext 0 0 | Some s \<Rightarrow> s) level msg)
                  (Some h1) msg level))) = g w1"
      by (rule log_tail_keeps) (simp_all add: zap snd fin c)
  qed
qed

lemma log_env:
  "globalCfg (world_of (log w l level msg)) = globalCfg w"
  "now (world_of (log w l level msg)) = now w"
  "logChan (world_of (log w l level msg)) = logChan w"
  by (rule log_keeps; simp add: startSpanIfNeeded_env zap_log_env send_env endSpan_env)+

lemma log_quiet:
  assumes "\<not> EnableLoki (globalCfg w)"
  shows "sends (events (world_of (log w l level msg))) = sends (events w)"
  by (rule log_keeps [where g = "\<lambda>w. sends (events w)"])
    (simp_all add: assms startSpanIfNeeded_env zap_log_env send_quiet endSpan_env)

lemma log_started:
  "started (events (world_of (log w l level msg))) =
     started (events w) @
       (case l of
          None \<Rightarrow> []
        | Some h \<Rightarrow>
            if span h = None \<and> tracer h \<noteq> None then [(name h, start_span w (ctx h))] else [])"
proof (cases l)
  case None
  then show ?thesis by (simp add: log_def)
next
  case (Some h)
  show ?thesis
  proof (cases "startSpanIfNeeded w h")
    case (Returned w1 h1)
    have "started (events (world_of (log w l level msg))) = started (events w1)"
      unfolding log_def Some option.case Let_def Returned and_then.simps
      by (rule log_tail_keeps [where g = "\<lambda>w. started (events w)"])
        (simp_all add: zap_log_env send_env endSpan_env)
    with startSpanIfNeeded_started [of w h] Returned Some show ?thesis by simp
  next
    case (Panicked w1 m)
    with startSpanIfNeeded_started [of w h] Some show ?thesis
      by (simp add: log_def)
  next
    case (Exited w1 n)
    with startSpanIfNeeded_started [of w h] Some show ?thesis
      by (simp add: log_def)
  qed
qed

lemma log_Returned:
  assumes "log w (Some h) level msg = Returned w' l'"
  obtains h1 where
    "l' = Some (set_attrs (SliceStable (attrs h @ synthesized msg level (now w - start h))) h1)"
    and "span h1 = (if span h = None then Some (start_span w (ctx h)) else span h)"
    and "err h1 = err h"
    and "\<And>s. span h1 = Some s \<Longrightarrow> flushes s (events w') =
           flushes s (events w) @ [SliceStable (attrs h @ synthesized msg level (now w - start h))]"
    and "\<And>s. span h1 = Some s \<Longrightarrow> status_errors s (events w') =
           status_errors s (events w) @ (case err h of None \<Rightarrow> [] | Some e \<Rightarrow> [e])"
    and "\<And>s. span h1 = Some s \<Longrightarrow> recorded_errors s (events w') =
           recorded_errors s (events w) @ (case err h of None \<Rightarrow> [] | Some e \<Rightarrow> [e])"
proof -
  from assms obtain w1 h1 where
    a: "startSpanIfNeeded w h = Returned w1 h1"
    and b: "and_then
              (case logger h1 of
                 None \<Rightarrow> Returned w1 ()
               | Some lg \<Rightarrow> zap_log w1 lg level msg
                   (log_fields w1 (case span h1 of None \<Rightarrow> SpanContext 0 0 | Some s \<Rightarrow> s) level h1))
              (\<lambda>w2 u. endSpan (send w2 h1 (case span h1 of None \<Rightarrow> SpanContext 0 0 | Some s \<Rightarrow> s) level msg)
                  (Some h1) msg level) = Returned w' l'"
    unfolding log_def option.case Let_def by (rule and_then_Returned)
  let ?sc = "case span h1 of None \<Rightarrow> SpanContext 0 0 | Some s \<Rightarrow> s"
  from b obtain w2 and u :: unit where
    c: "(case logger h1 of
           None \<Rightarrow> Returned w1 ()
         | Some lg \<Rightarrow> zap_log w1 lg level msg (log_fields w1 ?sc level h1)) = Returned w2 u"
    and d: "endSpan (send w2 h1 ?sc level msg) (Some h1) msg level = Returned w' l'"
    by (rule and_then_Returned)
  note s = startSpanIfNeeded_Returned [OF a]
  have w2raw: "now w2 = now w1 \<and> (\<forall>s. flushes s (events w2) = flushes s (events w1) \<and>
      status_errors s (events w2) = status_errors s (events w1) \<and>
      recorded_errors s (events w2) = recorded_errors s (events w1))"
  proof (cases "logger h1")
    case None
    with c show ?thesis by simp
  next
    case (Some lg)
    with c have e: "zap_log w1 lg level msg (log_fields w1 ?sc level h1) = Returned w2 u" by simp
    show ?thesis
      using zap_log_env [where w = w1 and lg = lg and level = level and msg = msg
          and fs = "log_fields w1 ?sc level h1"]
      unfolding e by simp
  qed
  then have w2: "now w2 = now w1" "\<And>s. flushes s (events w2) = flushes s (events w1)"
    "\<And>s. status_errors s (events w2) = status_errors s (events w1)"
    "\<And>s. recorded_errors s (events w2) = recorded_errors s (events w1)"
    by simp_all
  have l': "l' = Some (set_attrs (SliceStable (attrs h @ synthesized msg level (now w - start h))) h1)"
    using endSpan_Returned [OF d] by (simp add: send_env w2 s)
  have f: "flushes s (events w') =
           flushes s (events w) @ [SliceStable (attrs h @ synthesized msg level (now w - start h))]"
    and g: "status_errors s (events w') =
           status_errors s (events w) @ (case err h of None \<Rightarrow> [] | Some e \<Rightarrow> [e])"
    and r: "recorded_errors s (events w') =
           recorded_errors s (events w) @ (case err h of None \<Rightarrow> [] | Some e \<Rightarrow> [e])"
    if "span h1 = Some s" for s
    using endSpan_span [OF that, of "send w2 h1 ?sc level msg" msg level] unfolding d
    by (simp_all add: send_env w2 s)
  show thesis
    by (rule that [OF l' s(1) s(4) f g r])
qed

lemma WithField_Some:
  "\<exists>h'. WithField w (Some h) k v = Some h' \<and> span h' = span h \<and> tracer h' = tracer h
     \<and> err h' = err h \<and> start h' = start h \<and> exporter h' = exporter h
     \<and> attrs h' = attrs h @ (if k = [] then [] else [attribute_String k (sprint_v v)])"
  by (simp add: WithField_def)

lemma WithFields_Some:
  "\<exists>h'. WithFields w (Some h) m = Some h' \<and> span h' = span h \<and> tracer h' = tracer h
     \<and> err h' = err h \<and> start h' = start h \<and> exporter h' = exporter h
     \<and> attrs h' = attrs h @
           filter (\<lambda>a. Key a \<noteq> []) (map (\<lambda>(k, v). attribute_String k (sprint_v v)) m)"
proof (induction m arbitrary: h)
  case Nil
  then show ?case by simp
next
  case (Cons p m)
  obtain k v where p: "p = (k, v)" by (cases p)
  from WithField_Some [of w h k v] obtain h1 where h1: "WithField w (Some h) k v = Some h1"
    "span h1 = span h" "tracer h1 = tracer h" "err h1 = err h"
    "start h1 = start h" "exporter h1 = exporter h"
    "attrs h1 = attrs h @ (if k = [] then [] else [attribute_String k (sprint_v v)])"
    by blast
  from Cons.IH [of h1] obtain h2 where h2: "WithFields w (Some h1) m = Some h2"
    "span h2 = span h1" "tracer h2 = tracer h1" "err h2 = err h1"
    "start h2 = start h1" "exporter h2 = exporter h1"
    "attrs h2 = attrs h1 @
           filter (\<lambda>a. Key a \<noteq> []) (map (\<lambda>(k, v). attribute_String k (sprint_v v)) m)"
    by blast
  show ?case
    by (rule exI [of _ h2]) (simp add: p h1 h2 attribute_String_def)
qed

lemma WithFields_None [simp]: "WithFields w None m = None"
  by (induction m) auto

lemma WithError_env:
  "globalCfg (world_of (WithError w l e)) = globalCfg w"
  "now (world_of (WithError w l e)) = now w"
  "logChan (world_of (WithError w l e)) = logChan w"
  "sends (events (world_of (WithError w l e))) = sends (events w)"
  "started (events (world_of (WithError w l e))) = started (events w)"
  by (simp_all add: WithError_def Let_def split: option.splits)

lemma WithError_Returned:
  assumes "WithError w (Some h) e = Returned w' l'"
  obtains h' where "l' = Some h'"
    and "span h' = span h" and "tracer h' = tracer h" and "start h' = start h"
    and "err h' = (case e of None \<Rightarrow> err h | Some m \<Rightarrow> Some m)"
  using assms by (auto simp: WithError_def Let_def split: option.splits)

lemma WithError_None: "WithError w None e = Returned w' l' \<Longrightarrow> l' = None"
  by (auto simp: WithError_def split: option.splits)

lemma Fatal_not_Returned: "Fatal w l msg \<noteq> Returned w' l'"
  by (cases "log w l ''fatal'' msg") (auto simp: Fatal_def split: option.splits)

lemma world_of_Fatal_events:
  "\<exists>es. events (world_of (Fatal w l msg)) = events (world_of (log w l ''fatal'' msg)) @ es
      \<and> started es = [] \<and> sends es = []"
  by (cases "log w l ''fatal'' msg") (auto simp: Fatal_def split: option.splits)

lemma Fatal_env:
  "globalCfg (world_of (Fatal w l msg)) = globalCfg w"
  "logChan (world_of (Fatal w l msg)) = logChan w"
  using log_env [of w l "''fatal''" msg]
  by (cases "log w l ''fatal'' msg"; auto simp: Fatal_def split: option.splits)+

lemma Fatal_started:
  "started (events (world_of (Fatal w l msg))) = started (events (world_of (log w l ''fatal'' msg)))"
  using world_of_Fatal_events [of w l msg] by auto

lemma Fatal_sends:
  "sends (events (world_of (Fatal w l msg))) = sends (events (world_of (log w l ''fatal'' msg)))"
  using world_of_Fatal_events [of w l msg] by auto

lemma call_env:
  "globalCfg (world_of (call w l c)) = globalCfg w"
  "logChan (world_of (call w l c)) = logChan w"
  by (cases c; simp add: Info_def Error_def Debug_def Warn_def log_env WithError_env Fatal_env)+

lemma call_quiet:
  assumes "\<not> EnableLoki (globalCfg w)"
  shows "sends (events (world_of (call w l c))) = sends (events w)"
  using assms
  by (cases c) (simp_all add: Info_def Error_def Debug_def Warn_def log_quiet WithError_env Fatal_sends)

lemma call_started:
  "started (events (world_of (call w l c))) =
     started (events w) @
       (if is_logging c
        then (case l of
                None \<Rightarrow> []
              | Some h \<Rightarrow>
                  if span h = None \<and> tracer h \<noteq> None
                  then [(name h, start_span w (ctx h))] else [])
        else [])"
  by (cases c)
    (simp_all add: Info_def Error_def Debug_def Warn_def log_started WithError_env Fatal_started)

lemma log_Returned_settled:
  assumes "log w l level msg = Returned w' l'"
  shows "span_settled l'"
proof (cases l)
  case None
  with assms show ?thesis by (auto simp: log_def span_settled_def)
next
  case (Some h)
  with assms have "log w (Some h) level msg = Returned w' l'" by simp
  then show ?thesis
    by (rule log_Returned) (auto simp: span_settled_def)
qed

lemma call_logging_settled:
  assumes "is_logging c" and "call w l c = Returned w' l'"
  shows "span_settled l'"
  using assms
  by (cases c)
    (auto simp: Info_def Error_def Debug_def Warn_def Fatal_not_Returned
      intro: log_Returned_settled)

lemma Noop_settled [simp]: "span_settled (Some (Noop w n))"
  by (simp add: span_settled_def Noop_def)

lemma call_field_settled:
  assumes "\<not> is_logging c" and "call w (Some h) c = Returned w' l'"
  shows "\<exists>h'. l' = Some h' \<and> span h' = span h \<and> tracer h' = tracer h"
proof (cases c)
  case (CallWithField k v)
  with assms have "l' = WithField w (Some h) k v" by auto
  with WithField_Some [of w h k v] show ?thesis by auto
next
  case (CallWithFields m)
  with assms have "l' = WithFields w (Some h) m" by auto
  with WithFields_Some [of w h m] show ?thesis by auto
next
  case (CallWithError e)
  with assms have "WithError w (Some h) e = Returned w' l'" by simp
  then show ?thesis
    by (rule WithError_Returned) simp
qed (use assms in auto)

lemma call_settled:
  assumes "span_settled l" and "call w l c = Returned w' l'"
  shows "span_settled l'"
proof (cases "is_logging c")
  case True
  with assms show ?thesis by (auto intro: call_logging_settled)
next
  case False
  show ?thesis
  proof (cases l)
    case None
    with False assms show ?thesis
      by (cases c) (auto simp: WithField_def Noop_def span_settled_def dest: WithError_None)
  next
    case (Some h)
    with call_field_settled [OF False, of w h w' l'] assms show ?thesis
      by (auto simp: span_settled_def)
  qed
qed

lemma calls_settled_started:
  assumes "span_settled l"
  shows "started (events (world_of (calls w l cs))) = started (events w)"
  using assms
proof (induction cs arbitrary: w l)
  case Nil
  then show ?case by simp
next
  case (Cons c cs)
  have s: "started (events (world_of (call w l c))) = started (events w)"
    using Cons.prems by (auto simp: call_started span_settled_def split: option.splits)
  show ?case
  proof (cases "call w l c")
    case (Returned w1 l1)
    with Cons.prems have "span_settled l1" by (auto intro: call_settled)
    from Cons.IH [OF this, of w1] s Returned show ?thesis by simp
  qed (use s in simp_all)
qed

lemma calls_started_le:
  "length (started (events (world_of (calls w l cs)))) \<le> Suc (length (started (events w)))"
proof (induction cs arbitrary: w l)
  case Nil
  then show ?case by simp
next
  case (Cons c cs)
  show ?case
  proof (cases "call w l c")
    case (Returned w1 l1)
    show ?thesis
    proof (cases "is_logging c")
      case True
      with Returned have "span_settled l1" by (auto intro: call_logging_settled)
      then have "started (events (world_of (calls w1 l1 cs))) = started (events w1)"
        by (rule calls_settled_started)
      with call_started [of w l c] Returned show ?thesis
        by (auto split: option.splits)
    next
      case False
      with call_started [of w l c] Returned have "started (events w1) = started (events w)"
        by simp
      with Cons.IH [of w1 l1] Returned show ?thesis by simp
    qed
  next
    case (Panicked w1 m)
    with call_started [of w l c] show ?thesis by (auto split: option.splits)
  next
    case (Exited w1 n)
    with call_started [of w l c] show ?thesis by (auto split: option.splits)
  qed
qed

lemma calls_env:
  "globalCfg (world_of (calls w l cs)) = globalCfg w \<and> logChan (world_of (calls w l cs)) = logChan w"
proof (induction cs arbitrary: w l)
  case Nil
  then show ?case by simp
next
  case (Cons c cs)
  with call_env [of w l c] show ?case
    by (cases "call w l c") auto
qed

lemma calls_quiet:
  assumes "\<not> EnableLoki (globalCfg w)"
  shows "sends (events (world_of (calls w l cs))) = sends (events w)"
  using assms
proof (induction cs arbitrary: w l)
  case Nil
  then show ?case by simp
next
  case (Cons c cs)
  note q = call_quiet [OF Cons.prems, of l c]
  show ?case
  proof (cases "call w l c")
    case (Returned w1 l1)
    with call_env(1) [of w l c] Cons.prems have "\<not> EnableLoki (globalCfg w1)" by simp
    from Cons.IH [OF this, of l1] q Returned show ?thesis by simp
  qed (use q in simp_all)
qed

lemma zap_log_eotel_env:
  "globalCfg (world_of (zap_log_eotel w lg level msg fs)) = globalCfg w"
  "now (world_of (zap_log_eotel w lg level msg fs)) = now w"
  "logChan (world_of (zap_log_eotel w lg level msg fs)) = logChan w"
  "sends (events (world_of (zap_log_eotel w lg level msg fs))) = sends (events w)"
  "started (events (world_of (zap_log_eotel w lg level msg fs))) = started (events w)"
  "flushes s (events (world_of (zap_log_eotel w lg level msg fs))) = flushes s (events w)"
  "status_errors s (events (world_of (zap_log_eotel w lg level msg fs))) = status_errors s (events w)"
  "recorded_errors s (events (world_of (zap_log_eotel w lg level msg fs))) = recorded_errors s (events w)"
  by (simp_all add: zap_log_eotel_def zap_log_env split: option.splits)

lemma send_eotel_env:
  "globalCfg (world_of (send_eotel w l sc level msg)) = globalCfg w"
  "now (world_of (send_eotel w l sc level msg)) = now w"
  "logChan (world_of (send_eotel w l sc level msg)) = logChan w"
  "started (events (world_of (send_eotel w l sc level msg))) = started (events w)"
  "flushes s (events (world_of (send_eotel w l sc level msg))) = flushes s (events w)"
  "status_errors s (events (world_of (send_eotel w l sc level msg))) = status_errors s (events w)"
  "recorded_errors s (events (world_of (send_eotel w l sc level msg))) = recorded_errors s (events w)"
  by (simp_all add: send_eotel_def split: option.splits)

lemma send_eotel_quiet:
  "\<not> EnableLoki (globalCfg w) \<Longrightarrow> send_eotel w l sc level msg = Returned w ()"
  by (simp add: send_eotel_def)

lemma flush_eotel_env:
  "globalCfg (flush_eotel w l) = globalCfg w"
  "now (flush_eotel w l) = now w"
  "logChan (flush_eotel w l) = logChan w"
  "started (events (flush_eotel w l)) = started (events w)"
  "sends (events (flush_eotel w l)) = sends (events w)"
  "status_errors s (events (flush_eotel w l)) = status_errors s (events w)"
  by (simp_all add: flush_eotel_def split: option.splits)

lemma flush_eotel_span:
  "span l = Some s \<Longrightarrow>
     flushes s (events (flush_eotel w l)) = flushes s (events w) @ [attrs l]"
  "span l = Some s \<Longrightarrow>
     recorded_errors s (events (flush_eotel w l)) =
       recorded_errors s (events w) @ (case err l of None \<Rightarrow> [] | Some e \<Rightarrow> [e])"
  by (simp_all add: flush_eotel_def split: option.splits)

lemma endSpan_eotel_env:
  "globalCfg (world_of (endSpan_eotel w l msg level)) = globalCfg w"
  "now (world_of (endSpan_eotel w l msg level)) = now w"
  "logChan (world_of (endSpan_eotel w l msg level)) = logChan w"
  "started (events (world_of (endSpan_eotel w l msg level))) = started (events w)"
  "sends (events (world_of (endSpan_eotel w l msg level))) = sends (events w)"
  "status_errors s (events (world_of (endSpan_eotel w l msg level))) = status_errors s (events w)"
  by (simp_all add: endSpan_eotel_def Let_def flush_eotel_env split: option.splits)

lemma endSpan_eotel_span:
  assumes "span h = Some s"
  shows "flushes s (events (world_of (endSpan_eotel w (Some h) msg level))) =
           flushes s (events w) @ [SliceStable (attrs h @ synthesized msg level (now w - start h))]"
    and "recorded_errors s (events (world_of (endSpan_eotel w (Some h) msg level))) =
           recorded_errors s (events w) @ (case err h of None \<Rightarrow> [] | Some e \<Rightarrow> [e])"
  using assms by (simp_all add: endSpan_eotel_def Let_def flush_eotel_span split: option.splits)

lemma endSpan_eotel_Returned:
  assumes "endSpan_eotel w (Some h) msg level = Returned w' l'"
  shows "l' = Some (set_attrs (SliceStable (attrs h @ synthesized msg level (now w - start h))) h)"
  using assms by (auto simp: endSpan_eotel_def Let_def split: option.splits if_splits)

lemma log_eotel_tail_keeps:
  fixes g :: "world \<Rightarrow> 'a"
  assumes zap: "\<And>w' lg fs. globalCfg w' = globalCfg w \<Longrightarrow> g (world_of (zap_log_eotel w' lg level msg fs)) = g w'"
    and snd: "\<And>w' h sc. globalCfg w' = globalCfg w \<Longrightarrow> g (world_of (send_eotel w' h sc level msg)) = g w'"
    and fin: "\<And>w' l. globalCfg w' = globalCfg w \<Longrightarrow> g (world_of (endSpan_eotel w' l msg level)) = g w'"
  shows "g (world_of
           (and_then (zap_log_eotel w lg level msg fs)
              (\<lambda>w2 u. and_then (send_eotel w2 h1 sc level msg)
                 (\<lambda>w3 u. endSpan_eotel w3 (Some h1) msg level)))) = g w"
proof (rule and_then_keeps)
  show "g (world_of (zap_log_eotel w lg level msg fs)) = g w" by (simp add: zap)
next
  fix w1 and x :: unit
  assume r: "zap_log_eotel w lg level msg fs = Returned w1 x"
  with zap_log_eotel_env(1) [of w lg level msg fs] have c: "globalCfg w1 = globalCfg w" by simp
  show "g (world_of (and_then (send_eotel w1 h1 sc level msg)
                 (\<lambda>w3 u. endSpan_eotel w3 (Some h1) msg level))) = g w1"
  proof (rule and_then_keeps)
    show "g (world_of (send_eotel w1 h1 sc level msg)) = g w1" by (simp add: snd c)
  next
    fix w2 and y :: unit
    assume "send_eotel w1 h1 sc level msg = Returned w2 y"
    with send_eotel_env(1) [of w1 h1 sc level msg] c have "globalCfg w2 = globalCfg w" by simp
    then show "g (world_of (endSpan_eotel w2 (Some h1) msg level)) = g w2" by (rule fin)
  qed
qed

lemma log_eotel_keeps:
  fixes g :: "world \<Rightarrow> 'a"
  assumes start: "\<And>h. g (world_of (startSpanIfNeeded w h)) = g w"
    and zap: "\<And>w' lg fs. globalCfg w' = globalCfg w \<Longrightarrow> g (world_of (zap_log_eotel w' lg level msg fs)) = g w'"
    and snd: "\<And>w' h sc. globalCfg w' = globalCfg w \<Longrightarrow> g (world_of (send_eotel w' h sc level msg)) = g w'"
    and fin: "\<And>w' l. globalCfg w' = globalCfg w \<Longrightarrow> g (world_of (endSpan_eotel w' l msg level)) = g w'"
  shows "g (world_of (log_eotel w l level msg)) = g w"
proof (cases l)
  case None
  then show ?thesis by (simp add: log_eotel_def)
next
  case (Some h)
  show ?thesis
    unfolding log_eotel_def Some option.case
  proof (rule and_then_keeps)
    show "g (world_of (startSpanIfNeeded w h)) = g w" by (rule start)
  next
    fix w1 h1
    assume r: "startSpanIfNeeded w h = Returned w1 h1"
    from startSpanIfNeeded_env(1)[of w h] r have c: "globalCfg w1 = globalCfg w" by simp
    show "g (world_of
           (case span h1 of
              None \<Rightarrow> Panicked w1 nil_dereference
            | Some sc \<Rightarrow>
                and_then (zap_log_eotel w1 (logger h1) level msg (log_fields w1 sc level h1))
                  (\<lambda>w2 u. and_then (send_eotel w2 h1 sc level msg)
                     (\<lambda>w3 u. endSpan_eotel w3 (Some h1) msg level)))) = g w1"
    proof (cases "span h1")
      case None
      then show ?thesis by simp
    next
      case (Some sc)
      show ?thesis
        unfolding Some option.case
        by (rule log_eotel_tail_keeps) (simp_all add: zap snd fin c)
    qed
  qed
qed

lemma log_eotel_env:
  "globalCfg (world_of (log_eotel w l level msg)) = globalCfg w"
  "now (world_of (log_eotel w l level msg)) = now w"
  "logChan (world_of (log_eotel w l level msg)) = logChan w"
  by (rule log_eotel_keeps;
      simp add: startSpanIfNeeded_env zap_log_eotel_env send_eotel_env endSpan_eotel_env)+

lemma log_eotel_quiet:
  assumes "\<not> EnableLoki (globalCfg w)"
  shows "sends (events (world_of (log_eotel w l level msg))) = sends (events w)"
  by (rule log_eotel_keeps [where g = "\<lambda>w. sends (events w)"])
    (simp_all add: assms startSpanIfNeeded_env zap_log_eotel_env send_eotel_quiet endSpan_eotel_env)

lemma log_eotel_no_status:
  "status_errors s (events (world_of (log_eotel w l level msg))) = status_errors s (events w)"
proof (rule log_eotel_keeps [where g = "\<lambda>w. status_errors s (events w)"])
  fix h
  show "status_errors s (events (world_of (startSpanIfNeeded w h))) = status_errors s (events w)"
    by (simp add: startSpanIfNeeded_cases split: option.splits)
qed (simp_all add: zap_log_eotel_env send_eotel_env endSpan_eotel_env)

lemma log_eotel_started:
  "started (events (world_of (log_eotel w l level msg))) =
     started (events w) @
       (case l of
          None \<Rightarrow> []
        | Some h \<Rightarrow>
            if span h = None \<and> tracer h \<noteq> None then [(name h, start_span w (ctx h))] else [])"
proof (cases l)
  case None
  then show ?thesis by (simp add: log_eotel_def)
next
  case (Some h)
  show ?thesis
  proof (cases "startSpanIfNeeded w h")
    case (Returned w1 h1)
    have "started (events (world_of (log_eotel w l level msg))) = started (events w1)"
    proof (cases "span h1")
      case None
      then show ?thesis by (simp add: log_eotel_def Some Returned)
    next
      case (Some sc)
      show ?thesis
        unfolding log_eotel_def \<open>l = Some h\<close> option.case Returned and_then.simps Some
        by (rule log_eotel_tail_keeps [where g = "\<lambda>w. started (events w)"])
          (simp_all add: zap_log_eotel_env send_eotel_env endSpan_eotel_env)
    qed
    with startSpanIfNeeded_started [of w h] Returned Some show ?thesis by simp
  next
    case (Panicked w1 m)
    with startSpanIfNeeded_started [of w h] Some show ?thesis
      by (simp add: log_eotel_def)
  next
    case (Exited w1 n)
    with startSpanIfNeeded_started [of w h] Some show ?thesis
      by (simp add: log_eotel_def)
  qed
qed

lemma log_eotel_Returned:
  assumes "log_eotel w (Some h) level msg = Returned w' l'"
  obtains h1 s where
    "l' = Some (set_attrs (SliceStable (attrs h @ synthesized msg level (now w - start h))) h1)"
    and "span h1 = Some s"
    and "span h1 = (if span h = None then Some (start_span w (ctx h)) else span h)"
    and "err h1 = err h"
    and "flushes s (events w') =
           flushes s (events w) @ [SliceStable (attrs h @ synthesized msg level (now w - start h))]"
    and "recorded_errors s (events w') =
           recorded_errors s (events w) @ (case err h of None \<Rightarrow> [] | Some e \<Rightarrow> [e])"
proof -
  from assms obtain w1 h1 where
    a: "startSpanIfNeeded w h = Returned w1 h1"
    and b: "(case span h1 of
              None \<Rightarrow> Panicked w1 nil_dereference
            | Some sc \<Rightarrow>
                and_then (zap_log_eotel w1 (logger h1) level msg (log_fields w1 sc level h1))
                  (\<lambda>w2 u. and_then (send_eotel w2 h1 sc level msg)
                     (\<lambda>w3 u. endSpan_eotel w3 (Some h1) msg level))) = Returned w' l'"
    unfolding log_eotel_def option.case by (rule and_then_Returned)
  from b obtain sc where sc: "span h1 = Some sc" by (cases "span h1") simp_all
  from b sc obtain w2 and u :: unit where
    c: "zap_log_eotel w1 (logger h1) level msg (log_fields w1 sc level h1) = Returned w2 u"
    and d0: "and_then (send_eotel w2 h1 sc level msg)
                     (\<lambda>w3 u. endSpan_eotel w3 (Some h1) msg level) = Returned w' l'"
    by (auto elim: and_then_Returned)
  from d0 obtain w3 and u' :: unit where
    e: "send_eotel w2 h1 sc level msg = Returned w3 u'"
    and d: "endSpan_eotel w3 (Some h1) msg level = Returned w' l'"
    by (rule and_then_Returned)
  note s = startSpanIfNeeded_Returned [OF a]
  have w2: "now w2 = now w1" "\<And>s. flushes s (events w2) = flushes s (events w1)"
    "\<And>s. recorded_errors s (events w2) = recorded_errors s (events w1)"
    using zap_log_eotel_env [where w = w1 and lg = "logger h1" and level = level and msg = msg
        and fs = "log_fields w1 sc level h1"]
    unfolding c by simp_all
  have w3: "now w3 = now w2" "\<And>s. flushes s (events w3) = flushes s (events w2)"
    "\<And>s. recorded_errors s (events w3) = recorded_errors s (events w2)"
    using send_eotel_env [where w = w2 and l = h1 and sc = sc and level = level and msg = msg]
    unfolding e by simp_all
  have l': "l' = Some (set_attrs (SliceStable (attrs h @ synthesized msg level (now w - start h))) h1)"
    using endSpan_eotel_Returned [OF d] by (simp add: w3 w2 s)
  have f: "flushes sc (events w') =
           flushes sc (events w) @ [SliceStable (attrs h @ synthesized msg level (now w - start h))]"
    and r: "recorded_errors sc (events w') =
           recorded_errors sc (events w) @ (case err h of None \<Rightarrow> [] | Some e \<Rightarrow> [e])"
    using endSpan_eotel_span [OF sc, of w3 msg level] unfolding d
    by (simp_all add: w3 w2 s)
  show thesis
    by (rule that [OF l' sc s(1) s(4) f r])
qed

lemma WithField_eotel_Some:
  "\<exists>h'. WithField_eotel w (Some h) k v = Returned w (Some h') \<and> span h' = span h
     \<and> tracer h' = tracer h \<and> err h' = err h \<and> start h' = start h
     \<and> attrs h' = attrs h @ [attribute_String k (sprint_v v)]"
  by (simp add: WithField_eotel_def)

lemma WithField_eotel_None: "WithField_eotel w None k v = Panicked w nil_dereference"
  by (simp add: WithField_eotel_def)

lemma WithFields_eotel_Some:
  "\<exists>h'. WithFields_eotel w (Some h) m = Returned w (Some h') \<and> span h' = span h
     \<and> tracer h' = tracer h \<and> err h' = err h \<and> start h' = start h
     \<and> attrs h' = attrs h @ map (\<lambda>(k, v). attribute_String k (sprint_v v)) m"
proof (induction m arbitrary: h)
  case Nil
  then show ?case by simp
next
  case (Cons p m)
  obtain k v where p: "p = (k, v)" by (cases p)
  from WithField_eotel_Some [of w h k v] obtain h1 where
    h1: "WithField_eotel w (Some h) k v = Returned w (Some h1)"
    "span h1 = span h" "tracer h1 = tracer h" "err h1 = err h" "start h1 = start h"
    "attrs h1 = attrs h @ [attribute_String k (sprint_v v)]"
    by blast
  from Cons.IH [of h1] obtain h2 where
    h2: "WithFields_eotel w (Some h1) m = Returned w (Some h2)"
    "span h2 = span h1" "tracer h2 = tracer h1" "err h2 = err h1" "start h2 = start h1"
    "attrs h2 = attrs h1 @ map (\<lambda>(k, v). attribute_String k (sprint_v v)) m"
    by blast
  show ?case
    by (rule exI [of _ h2]) (simp add: p h1 h2)
qed

lemma WithFields_eotel_None:
  "WithFields_eotel w None m = (if m = [] then Returned w None else Panicked w nil_dereference)"
  by (cases m) (auto simp: WithField_eotel_None)

lemma WithError_eotel_env:
  "globalCfg (world_of (WithError_eotel w l e)) = globalCfg w"
  "logChan (world_of (WithError_eotel w l e)) = logChan w"
  "sends (events (world_of (WithError_eotel w l e))) = sends (events w)"
  "started (events (world_of (WithError_eotel w l e))) = started (events w)"
  by (simp_all add: WithError_eotel_def Let_def split: option.splits)

lemma WithError_eotel_Returned:
  assumes "WithError_eotel w (Some h) e = Returned w' l'"
  obtains h' where "l' = Some h'"
    and "span h' = span h" and "tracer h' = tracer h" and "start h' = start h"
    and "err h' = (case e of None \<Rightarrow> err h | Some m \<Rightarrow> Some m)"
  using assms by (auto simp: WithError_eotel_def Let_def split: option.splits)

lemma WithError_eotel_None: "WithError_eotel w None e = Returned w' l' \<Longrightarrow> l' = None"
  by (auto simp: WithError_eotel_def split: option.splits)

lemma Fatal_eotel_not_Returned: "Fatal_eotel w l msg \<noteq> Returned w' l'"
  by (cases "log_eotel w l ''fatal'' msg") (auto simp: Fatal_eotel_def split: option.splits)

lemma world_of_Fatal_eotel_events:
  "\<exists>es. events (world_of (Fatal_eotel w l msg)) =
          events (world_of (log_eotel w l ''fatal'' msg)) @ es
      \<and> started es = [] \<and> sends es = []"
  by (cases "log_eotel w l ''fatal'' msg") (auto simp: Fatal_eotel_def split: option.splits)

lemma Fatal_eotel_env:
  "globalCfg (world_of (Fatal_eotel w l msg)) = globalCfg w"
  "logChan (world_of (Fatal_eotel w l msg)) = logChan w"
  using log_eotel_env [of w l "''fatal''" msg]
  by (cases "log_eotel w l ''fatal'' msg"; auto simp: Fatal_eotel_def split: option.splits)+

lemma Fatal_eotel_started:
  "started (events (world_of (Fatal_eotel w l msg))) =
     started (events (world_of (log_eotel w l ''fatal'' msg)))"
  using world_of_Fatal_eotel_events [of w l msg] by auto

lemma Fatal_eotel_sends:
  "sends (events (world_of (Fatal_eotel w l msg))) =
     sends (events (world_of (log_eotel w l ''fatal'' msg)))"
  using world_of_Fatal_eotel_events [of w l msg] by auto

lemma WithField_eotel_world: "world_of (WithField_eotel w l k v) = w"
  by (simp add: WithField_eotel_def split: option.splits)

lemma WithFields_eotel_world: "world_of (WithFields_eotel w l m) = w"
proof (cases l)
  case None
  then show ?thesis by (simp add: WithFields_eotel_None)
next
  case (Some h)
  with WithFields_eotel_Some [of w h m] show ?thesis by auto
qed

lemma call_eotel_env:
  "globalCfg (world_of (call_eotel w l c)) = globalCfg w"
  "logChan (world_of (call_eotel w l c)) = logChan w"
  by (cases c; simp add: Info_eotel_def Error_eotel_def Debug_eotel_def Warn_eotel_def
      log_eotel_env WithError_eotel_env Fatal_eotel_env WithField_eotel_world
      WithFields_eotel_world)+

lemma call_eotel_quiet:
  assumes "\<not> EnableLoki (globalCfg w)"
  shows "sends (events (world_of (call_eotel w l c))) = sends (events w)"
  using assms
  by (cases c)
    (simp_all add: Info_eotel_def Error_eotel_def Debug_eotel_def Warn_eotel_def log_eotel_quiet
      WithError_eotel_env Fatal_eotel_sends WithField_eotel_world WithFields_eotel_world)

lemma call_eotel_started:
  "started (events (world_of (call_eotel w l c))) =
     started (events w) @
       (if is_logging c
        then (case l of
                None \<Rightarrow> []
              | Some h \<Rightarrow>
                  if span h = None \<and> tracer h \<noteq> None
                  then [(name h, start_span w (ctx h))] else [])
        else [])"
  by (cases c)
    (simp_all add: Info_eotel_def Error_eotel_def Debug_eotel_def Warn_eotel_def
      log_eotel_started WithError_eotel_env Fatal_eotel_started WithField_eotel_world
      WithFields_eotel_world)

lemma log_eotel_Returned_settled:
  assumes "log_eotel w l level msg = Returned w' l'"
  shows "span_settled l'"
proof (cases l)
  case None
  with assms show ?thesis by (auto simp: log_eotel_def)
next
  case (Some h)
  with assms have "log_eotel w (Some h) level msg = Returned w' l'" by simp
  then show ?thesis
    by (rule log_eotel_Returned) (auto simp: span_settled_def)
qed

lemma call_eotel_logging_settled:
  assumes "is_logging c" and "call_eotel w l c = Returned w' l'"
  shows "span_settled l'"
  using assms
  by (cases c)
    (auto simp: Info_eotel_def Error_eotel_def Debug_eotel_def Warn_eotel_def
      Fatal_eotel_not_Returned intro: log_eotel_Returned_settled)

lemma call_eotel_field_settled:
  assumes "\<not> is_logging c" and "call_eotel w (Some h) c = Returned w' l'"
  shows "\<exists>h'. l' = Some h' \<and> span h' = span h \<and> tracer h' = tracer h"
proof (cases c)
  case (CallWithField k v)
  with assms WithField_eotel_Some [of w h k v] show ?thesis by auto
next
  case (CallWithFields m)
  with assms WithFields_eotel_Some [of w h m] show ?thesis by auto
next
  case (CallWithError e)
  with assms have "WithError_eotel w (Some h) e = Returned w' l'" by simp
  then show ?thesis
    by (rule WithError_eotel_Returned) simp
qed (use assms in auto)

lemma call_eotel_settled:
  assumes "span_settled l" and "call_eotel w l c = Returned w' l'"
  shows "span_settled l'"
proof (cases "is_logging c")
  case True
  with assms show ?thesis by (auto intro: call_eotel_logging_settled)
next
  case False
  show ?thesis
  proof (cases l)
    case None
    with False assms show ?thesis
      by (cases c)
        (auto simp: WithField_eotel_None WithFields_eotel_None span_settled_def
          dest: WithError_eotel_None split: if_splits)
  next
    case (Some h)
    with call_eotel_field_settled [OF False, of w h w' l'] assms show ?thesis
      by (auto simp: span_settled_def)
  qed
qed

lemma calls_eotel_settled_started:
  assumes "span_settled l"
  shows "started (events (world_of (calls_eotel w l cs))) = started (events w)"
  using assms
proof (induction cs arbitrary: w l)
  case Nil
  then show ?case by simp
next
  case (Cons c cs)
  have s: "started (events (world_of (call_eotel w l c))) = started (events w)"
    using Cons.prems by (auto simp: call_eotel_started span_settled_def split: option.splits)
  show ?case
  proof (cases "call_eotel w l c")
    case (Returned w1 l1)
    with Cons.prems have "span_settled l1" by (auto intro: call_eotel_settled)
    from Cons.IH [OF this, of w1] s Returned show ?thesis by simp
  qed (use s in simp_all)
qed

lemma calls_eotel_started_le:
  "length (started (events (world_of (calls_eotel w l cs)))) \<le> Suc (length (started (events w)))"
proof (induction cs arbitrary: w l)
  case Nil
  then show ?case by simp
next
  case (Cons c cs)
  show ?case
  proof (cases "call_eotel w l c")
    case (Returned w1 l1)
    show ?thesis
    proof (cases "is_logging c")
      case True
      with Returned have "span_settled l1" by (auto intro: call_eotel_logging_settled)
      then have "started (events (world_of (calls_eotel w1 l1 cs))) = started (events w1)"
        by (rule calls_eotel_settled_started)
      with call_eotel_started [of w l c] Returned show ?thesis
        by (auto split: option.splits)
    next
      case False
      with call_eotel_started [of w l c] Returned have "started (events w1) = started (events w)"
        by simp
      with Cons.IH [of w1 l1] Returned show ?thesis by simp
    qed
  next
    case (Panicked w1 m)
    with call_eotel_started [of w l c] show ?thesis by (auto split: option.splits)
  next
    case (Exited w1 n)
    with call_eotel_started [of w l c] show ?thesis by (auto split: option.splits)
  qed
qed

lemma calls_eotel_env:
  "globalCfg (world_of (calls_eotel w l cs)) = globalCfg w
     \<and> logChan (world_of (calls_eotel w l cs)) = logChan w"
proof (induction cs arbitrary: w l)
  case Nil
  then show ?case by simp
next
  case (Cons c cs)
  with call_eotel_env [of w l c] show ?case
    by (cases "call_eotel w l c") auto
qed

lemma calls_eotel_quiet:
  assumes "\<not> EnableLoki (globalCfg w)"
  shows "sends (events (world_of (calls_eotel w l cs))) = sends (events w)"
  using assms
proof (induction cs arbitrary: w l)
  case Nil
  then show ?case by simp
next
  case (Cons c cs)
  note q = call_eotel_quiet [OF Cons.prems, of l c]
  show ?case
  proof (cases "call_eotel w l c")
    case (Returned w1 l1)
    with call_eotel_env(1) [of w l c] Cons.prems have "\<not> EnableLoki (globalCfg w1)" by simp
    from Cons.IH [OF this, of l1] q Returned show ?thesis by simp
  qed (use q in simp_all)
qed

section \<open>Claims\<close>

text \<open>
  C9. \<^verbatim>\<open>WithError(nil)\<close> is a no-op in both files: for every receiver (a handle or the nil
  pointer) the call returns that same receiver with every field as it was (\<open>err\<close>,
  \<open>fields\<close> and \<open>attrs\<close> among them), and the world is unchanged, so nothing was
  forwarded to the exporter.
\<close>

theorem WithError_nil_is_noop:
  "WithError w l None = Returned w l \<and> WithError_eotel w l None = Returned w l"
  by (simp add: WithError_def WithError_eotel_def)

lemma log_result_span:
  "result_span (log w (Some h) level msg) =
     (if returned (log w (Some h) level msg) = None then None
      else if span h = None then Some (start_span w (ctx h)) else span h)"
proof (cases "log w (Some h) level msg")
  case (Returned w' l')
  then show ?thesis
    by (rule log_Returned) (simp add: Returned)
qed simp_all

lemma log_eotel_result_span:
  "result_span (log_eotel w (Some h) level msg) =
     (if returned (log_eotel w (Some h) level msg) = None then None
      else if span h = None then Some (start_span w (ctx h)) else span h)"
proof (cases "log_eotel w (Some h) level msg")
  case (Returned w' l')
  then show ?thesis
    by (rule log_eotel_Returned) (simp add: Returned)
qed simp_all

lemma calls_started_bound:
  "length (started (events (world_of (calls w (Some h) cs)))) \<le>
     length (started (events w)) + (if span h = None then 1 else 0)"
proof (cases "span h = None")
  case True
  with calls_started_le [of w "Some h" cs] show ?thesis by simp
next
  case False
  then have "span_settled (Some h)" by (simp add: span_settled_def)
  from calls_settled_started [OF this, of w cs] False show ?thesis by simp
qed

lemma calls_eotel_started_bound:
  "length (started (events (world_of (calls_eotel w (Some h) cs)))) \<le>
     length (started (events w)) + (if span h = None then 1 else 0)"
proof (cases "span h = None")
  case True
  with calls_eotel_started_le [of w "Some h" cs] show ?thesis by simp
next
  case False
  then have "span_settled (Some h)" by (simp add: span_settled_def)
  from calls_eotel_settled_started [OF this, of w cs] False show ?thesis by simp
qed

text \<open>
  C2. Over any sequence of calls on a handle (field calls, \<^verbatim>\<open>WithError\<close> and the five
  logging methods, in any order and number), \<^verbatim>\<open>tracer.Start\<close> is called at most once,
  and not at all when the handle already has its span. A logging call on a handle that
  has no span and has a tracer starts exactly one span, under the handle's name; on a
  handle that has its span it starts none. When the logging call returns, the handle
  holds the span it started, or the span it already had. Both files.
\<close>

theorem at_most_one_span_per_handle:
  "length (started (events (world_of (calls w (Some h) cs)))) \<le>
     length (started (events w)) + (if span h = None then 1 else 0)
   \<and> length (started (events (world_of (calls_eotel w (Some h) cs)))) \<le>
     length (started (events w)) + (if span h = None then 1 else 0)
   \<and> started (events (world_of (log w (Some h) level msg))) =
       started (events w) @
         (if span h = None \<and> tracer h \<noteq> None then [(name h, start_span w (ctx h))] else [])
   \<and> started (events (world_of (log_eotel w (Some h) level msg))) =
       started (events w) @
         (if span h = None \<and> tracer h \<noteq> None then [(name h, start_span w (ctx h))] else [])
   \<and> result_span (log w (Some h) level msg) =
       (if returned (log w (Some h) level msg) = None then None
        else if span h = None then Some (start_span w (ctx h)) else span h)
   \<and> result_span (log_eotel w (Some h) level msg) =
       (if returned (log_eotel w (Some h) level msg) = None then None
        else if span h = None then Some (start_span w (ctx h)) else span h)"
  using calls_started_bound [of w h cs] calls_eotel_started_bound [of w h cs]
    log_started [of w "Some h" level msg] log_eotel_started [of w "Some h" level msg]
    log_result_span [of w h level msg] log_eotel_result_span [of w h level msg]
  by simp

lemma sendLoki_quiet: "\<not> EnableLoki (globalCfg w) \<Longrightarrow> sendLoki w net entry = (w, None)"
  by (simp add: sendLoki_def)

lemma worker_quiet:
  "\<not> EnableLoki (globalCfg w) \<Longrightarrow> worker w net entries = w\<lparr>logChan := []\<rparr>"
  by (induction entries arbitrary: w) (simp_all add: sendLoki_quiet)

text \<open>
  C8. With \<^verbatim>\<open>EnableLoki\<close> false, no sequence of calls on a handle, at any severity, calls
  \<^verbatim>\<open>Send\<close> on the exporter or posts to the remote endpoint, and the queue \<^verbatim>\<open>logChan\<close> is
  left as it was; \<^verbatim>\<open>sendLoki\<close> returns nil without posting, and so does the worker for
  every entry it takes from the queue. Both files.
\<close>

theorem export_disabled_sends_nothing:
  assumes "\<not> EnableLoki (globalCfg w)"
  shows "sends (events (world_of (calls w l cs))) = sends (events w)
    \<and> logChan (world_of (calls w l cs)) = logChan w
    \<and> sends (events (world_of (calls_eotel w l cs))) = sends (events w)
    \<and> logChan (world_of (calls_eotel w l cs)) = logChan w
    \<and> sendLoki w net entry = (w, None)
    \<and> events (worker w nets entries) = events w"
  using assms calls_quiet [OF assms, of l cs] calls_eotel_quiet [OF assms, of l cs]
    calls_env [of w l cs] calls_eotel_env [of w l cs]
  by (simp add: sendLoki_quiet worker_quiet)

theorem export_disabled_sends_nothing_witness:
  "\<not> EnableLoki (globalCfg w0)
   \<and> sends (events (world_of (calls w0 (Some (New w0 context_Background ''checkout''))
        [CallWithField ''user_id'' (VInt 42), CallInfo ''start'', CallError ''declined'']))) = []
   \<and> logChan (world_of (calls w0 (Some (New w0 context_Background ''checkout''))
        [CallWithField ''user_id'' (VInt 42), CallInfo ''start'', CallError ''declined''])) = []
   \<and> sends (events (world_of (calls_eotel w0 (Some (New w0 context_Background ''checkout''))
        [CallWithField ''user_id'' (VInt 42), CallInfo ''start'', CallError ''declined'']))) = []
   \<and> logChan (world_of (calls_eotel w0 (Some (New w0 context_Background ''checkout''))
        [CallWithField ''user_id'' (VInt 42), CallInfo ''start'', CallError ''declined''])) = []
   \<and> sendLoki w0 (HttpResponse 200 ''200 OK'') \<lparr>Labels = [(''level'', ''info'')], Message = ''start''\<rparr>
       = (w0, None)
   \<and> events (worker w0 (\<lambda>e. HttpResponse 200 ''200 OK'')
        [\<lparr>Labels = [(''level'', ''info'')], Message = ''start''\<rparr>]) = []"
proof -
  have h: "\<not> EnableLoki (globalCfg w0)" by (simp add: w0_def cfg0_def)
  have e: "events w0 = []" "logChan w0 = []" by (simp_all add: w0_def)
  show ?thesis
    using h export_disabled_sends_nothing [OF h,
        of "Some (New w0 context_Background ''checkout'')"
          "[CallWithField ''user_id'' (VInt 42), CallInfo ''start'', CallError ''declined'']"
          "HttpResponse 200 ''200 OK''" "\<lparr>Labels = [(''level'', ''info'')], Message = ''start''\<rparr>"
          "\<lambda>e. HttpResponse 200 ''200 OK''"
          "[\<lparr>Labels = [(''level'', ''info'')], Message = ''start''\<rparr>]"]
    by (simp add: e)
qed

lemma sorted_SliceStable: "sorted (map Key (SliceStable as))"
  by (simp add: SliceStable_def sorted_sort_key)

lemma mset_SliceStable: "mset (SliceStable as) = mset as"
  by (simp add: SliceStable_def)

lemma calls_field_calls:
  assumes "list_all is_field_call cs"
  shows "\<exists>h1. calls w (Some h) cs = Returned w (Some h1) \<and> span h1 = span h
           \<and> err h1 = err h \<and> start h1 = start h
           \<and> attrs h1 = attrs h @ filter (\<lambda>a. Key a \<noteq> []) (requested cs)"
  using assms
proof (induction cs arbitrary: h)
  case Nil
  then show ?case by simp
next
  case (Cons c cs)
  then have rest: "list_all is_field_call cs" by simp
  show ?case
  proof (cases c)
    case (CallWithField k v)
    from WithField_Some [of w h k v] obtain h' where
      h': "WithField w (Some h) k v = Some h'" "span h' = span h" "err h' = err h"
      "start h' = start h"
      "attrs h' = attrs h @ (if k = [] then [] else [attribute_String k (sprint_v v)])"
      by blast
    from Cons.IH [OF rest, of h'] obtain h1 where
      "calls w (Some h') cs = Returned w (Some h1)" "span h1 = span h'" "err h1 = err h'"
      "start h1 = start h'"
      "attrs h1 = attrs h' @ filter (\<lambda>a. Key a \<noteq> []) (requested cs)"
      by blast
    with h' CallWithField show ?thesis by (simp add: attribute_String_def)
  next
    case (CallWithFields m)
    from WithFields_Some [of w h m] obtain h' where
      h': "WithFields w (Some h) m = Some h'" "span h' = span h" "err h' = err h"
      "start h' = start h"
      "attrs h' = attrs h @
         filter (\<lambda>a. Key a \<noteq> []) (map (\<lambda>(k, v). attribute_String k (sprint_v v)) m)"
      by blast
    from Cons.IH [OF rest, of h'] obtain h1 where
      "calls w (Some h') cs = Returned w (Some h1)" "span h1 = span h'" "err h1 = err h'"
      "start h1 = start h'"
      "attrs h1 = attrs h' @ filter (\<lambda>a. Key a \<noteq> []) (requested cs)"
      by blast
    with h' CallWithFields show ?thesis by simp
  qed (use Cons.prems in simp_all)
qed

lemma calls_eotel_field_calls:
  assumes "list_all is_field_call cs"
  shows "\<exists>h1. calls_eotel w (Some h) cs = Returned w (Some h1) \<and> span h1 = span h
           \<and> err h1 = err h \<and> start h1 = start h
           \<and> attrs h1 = attrs h @ requested cs"
  using assms
proof (induction cs arbitrary: h)
  case Nil
  then show ?case by simp
next
  case (Cons c cs)
  then have rest: "list_all is_field_call cs" by simp
  show ?case
  proof (cases c)
    case (CallWithField k v)
    from WithField_eotel_Some [of w h k v] obtain h' where
      h': "WithField_eotel w (Some h) k v = Returned w (Some h')" "span h' = span h"
      "err h' = err h" "start h' = start h"
      "attrs h' = attrs h @ [attribute_String k (sprint_v v)]"
      by blast
    from Cons.IH [OF rest, of h'] obtain h1 where
      "calls_eotel w (Some h') cs = Returned w (Some h1)" "span h1 = span h'" "err h1 = err h'"
      "start h1 = start h'" "attrs h1 = attrs h' @ requested cs"
      by blast
    with h' CallWithField show ?thesis by simp
  next
    case (CallWithFields m)
    from WithFields_eotel_Some [of w h m] obtain h' where
      h': "WithFields_eotel w (Some h) m = Returned w (Some h')" "span h' = span h"
      "err h' = err h" "start h' = start h"
      "attrs h' = attrs h @ map (\<lambda>(k, v). attribute_String k (sprint_v v)) m"
      by blast
    from Cons.IH [OF rest, of h'] obtain h1 where
      "calls_eotel w (Some h') cs = Returned w (Some h1)" "span h1 = span h'" "err h1 = err h'"
      "start h1 = start h'" "attrs h1 = attrs h' @ requested cs"
      by blast
    with h' CallWithFields show ?thesis by simp
  qed (use Cons.prems in simp_all)
qed

lemma log_flush:
  assumes "log w (Some h) level msg = Returned w2 l2"
  shows "\<exists>h2 s. l2 = Some h2 \<and> span h2 = Some s
           \<and> flushes s (events w2) = flushes s (events w) @ [attrs h2]
           \<and> sorted (map Key (attrs h2))
           \<and> mset (attrs h2) = mset (attrs h) + mset (synthesized msg level (now w - start h))"
  using assms
proof (rule log_Returned)
  fix h1
  assume l2: "l2 = Some (set_attrs (SliceStable (attrs h @ synthesized msg level (now w - start h))) h1)"
    and sp: "span h1 = (if span h = None then Some (start_span w (ctx h)) else span h)"
    and fl: "\<And>s. span h1 = Some s \<Longrightarrow> flushes s (events w2) =
           flushes s (events w) @ [SliceStable (attrs h @ synthesized msg level (now w - start h))]"
  from sp obtain s where s: "span h1 = Some s" by (cases "span h") auto
  show ?thesis
    using l2 s fl [OF s] by (simp add: sorted_SliceStable mset_SliceStable)
qed

lemma log_eotel_flush:
  assumes "log_eotel w (Some h) level msg = Returned w2 l2"
  shows "\<exists>h2 s. l2 = Some h2 \<and> span h2 = Some s
           \<and> flushes s (events w2) = flushes s (events w) @ [attrs h2]
           \<and> sorted (map Key (attrs h2))
           \<and> mset (attrs h2) = mset (attrs h) + mset (synthesized msg level (now w - start h))"
  using assms
proof (rule log_eotel_Returned)
  fix h1 s
  assume "l2 = Some (set_attrs (SliceStable (attrs h @ synthesized msg level (now w - start h))) h1)"
    and "span h1 = Some s"
    and "flushes s (events w2) =
           flushes s (events w) @ [SliceStable (attrs h @ synthesized msg level (now w - start h))]"
  then show ?thesis
    by (simp add: sorted_SliceStable mset_SliceStable)
qed

text \<open>
  C1, as the code has it. After any sequence of \<^verbatim>\<open>WithField\<close>/\<^verbatim>\<open>WithFields\<close> calls the
  accumulator holds the handle's earlier attributes followed by one attribute per
  requested entry, in call order (\<^verbatim>\<open>src/unnamed/part_001\<close> leaves out the entries with an
  empty key). A logging call that returns then flushes once: the span receives exactly
  one more \<^verbatim>\<open>SetAttributes\<close>, whose list is sorted by key and is, as a multiset, the
  accumulator plus \<^verbatim>\<open>log.message\<close>, \<^verbatim>\<open>log.level\<close> and \<^verbatim>\<open>duration_ms\<close>: nothing is
  dropped, and keys given twice stay twice. The flushed list becomes the accumulator.
\<close>

theorem flush_is_sorted_and_complete:
  assumes "list_all is_field_call cs"
  shows "(\<exists>h1. calls w (Some h) cs = Returned w (Some h1)
            \<and> attrs h1 = attrs h @ filter (\<lambda>a. Key a \<noteq> []) (requested cs)
            \<and> (\<forall>w2 l2. log w (Some h1) level msg = Returned w2 l2 \<longrightarrow>
                 (\<exists>h2 s. l2 = Some h2 \<and> span h2 = Some s
                    \<and> flushes s (events w2) = flushes s (events w) @ [attrs h2]
                    \<and> sorted (map Key (attrs h2))
                    \<and> mset (attrs h2) =
                        mset (attrs h1) + mset (synthesized msg level (now w - start h)))))
       \<and> (\<exists>h1. calls_eotel w (Some h) cs = Returned w (Some h1)
            \<and> attrs h1 = attrs h @ requested cs
            \<and> (\<forall>w2 l2. log_eotel w (Some h1) level msg = Returned w2 l2 \<longrightarrow>
                 (\<exists>h2 s. l2 = Some h2 \<and> span h2 = Some s
                    \<and> flushes s (events w2) = flushes s (events w) @ [attrs h2]
                    \<and> sorted (map Key (attrs h2))
                    \<and> mset (attrs h2) =
                        mset (attrs h1) + mset (synthesized msg level (now w - start h)))))"
proof
  from calls_field_calls [OF assms, of w h] obtain h1 where
    h1: "calls w (Some h) cs = Returned w (Some h1)" "start h1 = start h"
    "attrs h1 = attrs h @ filter (\<lambda>a. Key a \<noteq> []) (requested cs)"
    by blast
  show "\<exists>h1. calls w (Some h) cs = Returned w (Some h1)
            \<and> attrs h1 = attrs h @ filter (\<lambda>a. Key a \<noteq> []) (requested cs)
            \<and> (\<forall>w2 l2. log w (Some h1) level msg = Returned w2 l2 \<longrightarrow>
                 (\<exists>h2 s. l2 = Some h2 \<and> span h2 = Some s
                    \<and> flushes s (events w2) = flushes s (events w) @ [attrs h2]
                    \<and> sorted (map Key (attrs h2))
                    \<and> mset (attrs h2) =
                        mset (attrs h1) + mset (synthesized msg level (now w - start h))))"
    using h1 log_flush [of w h1 level msg] by (intro exI [of _ h1]) auto
next
  from calls_eotel_field_calls [OF assms, of w h] obtain h1 where
    h1: "calls_eotel w (Some h) cs = Returned w (Some h1)" "start h1 = start h"
    "attrs h1 = attrs h @ requested cs"
    by blast
  show "\<exists>h1. calls_eotel w (Some h) cs = Returned w (Some h1)
            \<and> attrs h1 = attrs h @ requested cs
            \<and> (\<forall>w2 l2. log_eotel w (Some h1) level msg = Returned w2 l2 \<longrightarrow>
                 (\<exists>h2 s. l2 = Some h2 \<and> span h2 = Some s
                    \<and> flushes s (events w2) = flushes s (events w) @ [attrs h2]
                    \<and> sorted (map Key (attrs h2))
                    \<and> mset (attrs h2) =
                        mset (attrs h1) + mset (synthesized msg level (now w - start h))))"
    using h1 log_eotel_flush [of w h1 level msg] by (intro exI [of _ h1]) auto
qed

theorem flush_is_sorted_and_complete_witness:
  "list_all is_field_call
     [CallWithField ''user_id'' (VInt 42), CallWithFields [(''cart_size'', VInt 3), ([], VBool True)]]
   \<and> ((\<exists>h1. calls w0 (Some (New w0 context_Background ''checkout''))
              [CallWithField ''user_id'' (VInt 42),
               CallWithFields [(''cart_size'', VInt 3), ([], VBool True)]] = Returned w0 (Some h1)
            \<and> attrs h1 = attrs (New w0 context_Background ''checkout'') @
                 filter (\<lambda>a. Key a \<noteq> [])
                   (requested [CallWithField ''user_id'' (VInt 42),
                      CallWithFields [(''cart_size'', VInt 3), ([], VBool True)]])
            \<and> (\<forall>w2 l2. log w0 (Some h1) ''info'' ''start'' = Returned w2 l2 \<longrightarrow>
                 (\<exists>h2 s. l2 = Some h2 \<and> span h2 = Some s
                    \<and> flushes s (events w2) = flushes s (events w0) @ [attrs h2]
                    \<and> sorted (map Key (attrs h2))
                    \<and> mset (attrs h2) =
                        mset (attrs h1) + mset (synthesized ''start'' ''info''
                          (now w0 - start (New w0 context_Background ''checkout''))))))
       \<and> (\<exists>h1. calls_eotel w0 (Some (New w0 context_Background ''checkout''))
              [CallWithField ''user_id'' (VInt 42),
               CallWithFields [(''cart_size'', VInt 3), ([], VBool True)]] = Returned w0 (Some h1)
            \<and> attrs h1 = attrs (New w0 context_Background ''checkout'') @
                 requested [CallWithField ''user_id'' (VInt 42),
                      CallWithFields [(''cart_size'', VInt 3), ([], VBool True)]]
            \<and> (\<forall>w2 l2. log_eotel w0 (Some h1) ''info'' ''start'' = Returned w2 l2 \<longrightarrow>
                 (\<exists>h2 s. l2 = Some h2 \<and> span h2 = Some s
                    \<and> flushes s (events w2) = flushes s (events w0) @ [attrs h2]
                    \<and> sorted (map Key (attrs h2))
                    \<and> mset (attrs h2) =
                        mset (attrs h1) + mset (synthesized ''start'' ''info''
                          (now w0 - start (New w0 context_Background ''checkout'')))))))
   \<and> flushes (SpanContext 1 1)
        (events (world_of (calls w0 (Some (New w0 context_Background ''checkout''))
           [CallWithField ''user_id'' (VInt 42),
            CallWithFields [(''cart_size'', VInt 3), ([], VBool True)], CallInfo ''start'']))) =
       [[KeyValue ''cart_size'' (StringValue ''3''),
         KeyValue ''duration_ms'' (Float64Value 0),
         KeyValue ''log.level'' (StringValue ''info''),
         KeyValue ''log.message'' (StringValue ''start''),
         KeyValue ''user_id'' (StringValue ''42'')]]
   \<and> flushes (SpanContext 1 1)
        (events (world_of (calls_eotel w0 (Some (New w0 context_Background ''checkout''))
           [CallWithField ''user_id'' (VInt 42),
            CallWithFields [(''cart_size'', VInt 3), ([], VBool True)], CallInfo ''start'']))) =
       [[KeyValue [] (StringValue ''true''),
         KeyValue ''cart_size'' (StringValue ''3''),
         KeyValue ''duration_ms'' (Float64Value 0),
         KeyValue ''log.level'' (StringValue ''info''),
         KeyValue ''log.message'' (StringValue ''start''),
         KeyValue ''user_id'' (StringValue ''42'')]]"
proof -
  have h: "list_all is_field_call
     [CallWithField ''user_id'' (VInt 42), CallWithFields [(''cart_size'', VInt 3), ([], VBool True)]]"
    by simp
  have e1: "flushes (SpanContext 1 1)
        (events (world_of (calls w0 (Some (New w0 context_Background ''checkout''))
           [CallWithField ''user_id'' (VInt 42),
            CallWithFields [(''cart_size'', VInt 3), ([], VBool True)], CallInfo ''start'']))) =
       [[KeyValue ''cart_size'' (StringValue ''3''),
         KeyValue ''duration_ms'' (Float64Value 0),
         KeyValue ''log.level'' (StringValue ''info''),
         KeyValue ''log.message'' (StringValue ''start''),
         KeyValue ''user_id'' (StringValue ''42'')]]"
    by code_simp
  have e2: "flushes (SpanContext 1 1)
        (events (world_of (calls_eotel w0 (Some (New w0 context_Background ''checkout''))
           [CallWithField ''user_id'' (VInt 42),
            CallWithFields [(''cart_size'', VInt 3), ([], VBool True)], CallInfo ''start'']))) =
       [[KeyValue [] (StringValue ''true''),
         KeyValue ''cart_size'' (StringValue ''3''),
         KeyValue ''duration_ms'' (Float64Value 0),
         KeyValue ''log.level'' (StringValue ''info''),
         KeyValue ''log.message'' (StringValue ''start''),
         KeyValue ''user_id'' (StringValue ''42'')]]"
    by code_simp
  show ?thesis
    by (intro conjI h e1 e2
        flush_is_sorted_and_complete [OF h, of w0 "New w0 context_Background ''checkout''"
          "''info''" "''start''", THEN conjunct1]
        flush_is_sorted_and_complete [OF h, of w0 "New w0 context_Background ''checkout''"
          "''info''" "''start''", THEN conjunct2])
qed

text \<open>
  C1 as stated fails: two \<^verbatim>\<open>WithField\<close> calls with the key \<^verbatim>\<open>k\<close> and two logging calls
  on a fresh handle. The span receives two flushes, not one; the first holds the key
  \<^verbatim>\<open>k\<close> twice, and the second holds the first call's \<^verbatim>\<open>log.message\<close>, \<^verbatim>\<open>log.level\<close>
  and \<^verbatim>\<open>duration_ms\<close> beside its own. Both files.
\<close>

theorem flush_counterexample:
  "flushes (SpanContext 1 1)
     (events (world_of (calls w0 (Some (New w0 context_Background ''checkout''))
        [CallWithField ''k'' (VInt 1), CallWithField ''k'' (VInt 2), CallInfo ''a'', CallInfo ''b'']))) =
   [[KeyValue ''duration_ms'' (Float64Value 0),
     KeyValue ''k'' (StringValue ''1''), KeyValue ''k'' (StringValue ''2''),
     KeyValue ''log.level'' (StringValue ''info''),
     KeyValue ''log.message'' (StringValue ''a'')],
    [KeyValue ''duration_ms'' (Float64Value 0),
     KeyValue ''duration_ms'' (Float64Value 0),
     KeyValue ''k'' (StringValue ''1''), KeyValue ''k'' (StringValue ''2''),
     KeyValue ''log.level'' (StringValue ''info''),
     KeyValue ''log.level'' (StringValue ''info''),
     KeyValue ''log.message'' (StringValue ''a''),
     KeyValue ''log.message'' (StringValue ''b'')]]
   \<and> flushes (SpanContext 1 1)
     (events (world_of (calls_eotel w0 (Some (New w0 context_Background ''checkout''))
        [CallWithField ''k'' (VInt 1), CallWithField ''k'' (VInt 2), CallInfo ''a'', CallInfo ''b'']))) =
   [[KeyValue ''duration_ms'' (Float64Value 0),
     KeyValue ''k'' (StringValue ''1''), KeyValue ''k'' (StringValue ''2''),
     KeyValue ''log.level'' (StringValue ''info''),
     KeyValue ''log.message'' (StringValue ''a'')],
    [KeyValue ''duration_ms'' (Float64Value 0),
     KeyValue ''duration_ms'' (Float64Value 0),
     KeyValue ''k'' (StringValue ''1''), KeyValue ''k'' (StringValue ''2''),
     KeyValue ''log.level'' (StringValue ''info''),
     KeyValue ''log.level'' (StringValue ''info''),
     KeyValue ''log.message'' (StringValue ''a''),
     KeyValue ''log.message'' (StringValue ''b'')]]"
  by code_simp

end
